theory Spec2Isabelle
  imports Main
begin

section \<open>Data model of server/commands.c\<close>

text \<open>
  A C string (\<^verbatim>\<open>char *\<close>) is modelled by the bytes before its terminating nul, so it is a
  \<^typ>\<open>string\<close> without nul octets, and \<^verbatim>\<open>strcmp(a, b) == 0\<close> is equality.  A pointer
  that may be \<^verbatim>\<open>NULL\<close> is an \<^typ>\<open>'a option\<close>.  A \<^verbatim>\<open>struct iovec\<close> (base and length) is
  the list of its bytes, which may contain nul octets.
\<close>

type_synonym iovec = string

text \<open>
  The fields of \<^verbatim>\<open>struct confline\<close> that commands.c reads for rule lookup, argv
  construction, help and summary.  \<^verbatim>\<open>stdin_arg\<close> is a \<^verbatim>\<open>long\<close>; the field
  \<^verbatim>\<open>help\<close> is written \<open>help_cmd\<close>.
\<close>

record confline =
  command :: string
  subcommand :: string
  program :: string
  stdin_arg :: int
  summary :: "string option"
  help_cmd :: "string option"
  acls :: "string list"

section \<open>Rule matcher\<close>

text \<open>\<^verbatim>\<open>line_matches\<close>: the flag \<^verbatim>\<open>okay\<close> is set by three successive tests on the
  command field, then the subcommand field is tested the same way.\<close>

definition line_matches :: "confline \<Rightarrow> string option \<Rightarrow> string option \<Rightarrow> bool" where
  "line_matches cline cmd sub =
     (let okay = False;
          okay = (if command cline = ''ALL'' then True else okay);
          okay = (if cmd \<noteq> None \<and> command cline = the cmd then True else okay);
          okay = (if cmd = None \<and> command cline = ''EMPTY'' then True else okay)
      in if okay then
           (if subcommand cline = ''ALL'' then True
            else if sub \<noteq> None \<and> subcommand cline = the sub then True
            else if sub = None \<and> subcommand cline = ''EMPTY'' then True
            else False)
         else False)"

text \<open>\<^verbatim>\<open>find_config_line\<close>: the loop over \<^verbatim>\<open>config->rules[0 .. count-1]\<close>, returning at
  the first rule that matches, \<^verbatim>\<open>NULL\<close> after the loop.\<close>

fun find_config_line :: "confline list \<Rightarrow> string option \<Rightarrow> string option \<Rightarrow> confline option" where
  "find_config_line [] cmd sub = None"
| "find_config_line (r # rules) cmd sub =
     (if line_matches r cmd sub then Some r else find_config_line rules cmd sub)"

text \<open>The matching condition in the words of the specification: a field matches when it
  is \<^verbatim>\<open>"ALL"\<close>, or equals the request's token literally, or is \<^verbatim>\<open>"EMPTY"\<close> when the request
  has no such token.\<close>

definition spec_field_matches :: "string \<Rightarrow> string option \<Rightarrow> bool" where
  "spec_field_matches field req \<longleftrightarrow>
     field = ''ALL'' \<or> req = Some field \<or> (field = ''EMPTY'' \<and> req = None)"

definition spec_rule_matches :: "confline \<Rightarrow> string option \<Rightarrow> string option \<Rightarrow> bool" where
  "spec_rule_matches r cmd sub \<longleftrightarrow>
     spec_field_matches (command r) cmd \<and> spec_field_matches (subcommand r) sub"

section \<open>Argv builder\<close>

text \<open>Modelled from the spec: \<^verbatim>\<open>xstrndup\<close> and \<^verbatim>\<open>xstrdup\<close> are defined in
  util/xmalloc.c; commands.c only calls them.  The specification calls the result a
  null-terminated copy of the argument's bytes; read back as a C string, such a copy ends at
  the first nul octet of the bytes copied.\<close>

definition xstrndup :: "iovec \<Rightarrow> string" where
  "xstrndup a = takeWhile (\<lambda>c. c \<noteq> CHR 0x00) a"

text \<open>\<^verbatim>\<open>memchr(iov_base, '\0', iov_len) != NULL\<close>.\<close>

definition has_nul :: "iovec \<Rightarrow> bool" where
  "has_nul a = (CHR 0x00 \<in> set a)"

text \<open>\<^verbatim>\<open>strrchr(s, c)\<close>: a pointer to the last occurrence of \<open>c\<close> in \<open>s\<close>, that is the
  suffix of \<open>s\<close> that starts there, or \<^verbatim>\<open>NULL\<close>.\<close>

fun strrchr :: "string \<Rightarrow> char \<Rightarrow> string option" where
  "strrchr [] c = None"
| "strrchr (x # xs) c =
     (case strrchr xs c of
        Some p \<Rightarrow> Some p
      | None \<Rightarrow> if x = c then Some (x # xs) else None)"

text \<open>The name a child sees as \<^verbatim>\<open>argv[0]\<close>, as all three builders compute it:
  \<^verbatim>\<open>program = strrchr(path, '/'); if (program == NULL) program = path; else program++;\<close>\<close>

definition program_name :: "string \<Rightarrow> string" where
  "program_name path =
     (case strrchr path (CHR ''/'') of None \<Rightarrow> path | Some p \<Rightarrow> tl p)"

text \<open>The part of \<^verbatim>\<open>struct process\<close> that the dispatcher and the callbacks read and write.
  \<open>wstatus\<close> is the raw status stored by \<^verbatim>\<open>waitpid\<close> and \<open>status\<close> the exit code that
  \<^verbatim>\<open>server_exec\<close> translates it to (one C field, \<^verbatim>\<open>process->status\<close>).  The last seven
  fields stand for the state behind the pointers \<^verbatim>\<open>inout\<close>, \<^verbatim>\<open>err\<close> and \<^verbatim>\<open>loop\<close>: the read
  callback installed on each bufferevent (\<open>None\<close>: no such bufferevent), whether
  \<^verbatim>\<open>handle_io_event\<close> is installed as its event callback (false: the event callback is
  \<^verbatim>\<open>NULL\<close>), the bytes in the input buffer of each bufferevent, and
  \<^verbatim>\<open>event_base_got_break(loop)\<close>.  The field
  \<^verbatim>\<open>output\<close> is written \<open>output_buf\<close>.\<close>

datatype wstatus = Exited nat | Signaled

datatype read_handler = Handle_output | Handle_output_full | Handle_output_discard

record process =
  output_buf :: "iovec option"
  input :: "iovec option"
  wstatus :: wstatus
  status :: int
  reaped :: bool
  saw_output :: bool
  inout_readcb :: "read_handler option"
  err_readcb :: "read_handler option"
  inout_eventcb :: bool
  err_eventcb :: bool
  inout_input :: iovec
  err_input :: iovec
  got_break :: bool

text \<open>\<^verbatim>\<open>memset(&process, 0, sizeof(process))\<close>.\<close>

definition empty_process :: process where
  "empty_process = \<lparr>output_buf = None, input = None, wstatus = Exited 0, status = 0,
     reaped = False, saw_output = False, inout_readcb = None, err_readcb = None,
     inout_eventcb = False, err_eventcb = False, inout_input = [], err_input = [],
     got_break = False\<rparr>"

text \<open>The index compared with the loop counter in \<^verbatim>\<open>create_argv_command\<close>, a \<^verbatim>\<open>size_t\<close>
  of 64 bits: \<^verbatim>\<open>count - 1\<close> wraps for \<^verbatim>\<open>count == 0\<close>, and the cast of a negative \<^verbatim>\<open>long\<close>
  wraps as well.\<close>

definition stdin_index :: "confline \<Rightarrow> nat \<Rightarrow> nat" where
  "stdin_index cline count =
     (if stdin_arg cline = - 1 then (if count = 0 then 2 ^ 64 - 1 else count - 1)
      else nat (stdin_arg cline mod 2 ^ 64))"

text \<open>The loop \<^verbatim>\<open>for (i = 1, j = 1; i < count; i++)\<close> of \<^verbatim>\<open>create_argv_command\<close>.  The array
  \<^verbatim>\<open>req_argv\<close> is the list of the cells written so far, so that \<open>j\<close> is its length and
  \<^verbatim>\<open>req_argv[j] = x; j++\<close> appends \<open>x\<close>; a cell holds a string or \<^verbatim>\<open>NULL\<close>.\<close>

function create_argv_loop ::
  "iovec list \<Rightarrow> nat \<Rightarrow> nat \<Rightarrow> string option list \<times> process \<Rightarrow> string option list \<times> process"
where
  "create_argv_loop argv stdin i (req_argv, proc) =
     (if i < length argv then
        (if i = stdin then
           create_argv_loop argv stdin (Suc i) (req_argv, proc\<lparr>input := Some (argv ! i)\<rparr>)
         else if length (argv ! i) = 0 then
           create_argv_loop argv stdin (Suc i) (req_argv @ [Some []], proc)
         else
           create_argv_loop argv stdin (Suc i) (req_argv @ [Some (xstrndup (argv ! i))], proc))
      else (req_argv, proc))"
  by pat_completeness auto
termination
  by (relation "measure (\<lambda>(argv, stdin, i, st). length argv - i)") auto

declare create_argv_loop.simps [simp del]

definition create_argv_command ::
  "confline \<Rightarrow> process \<Rightarrow> iovec list \<Rightarrow> string option list \<times> process" where
  "create_argv_command cline proc argv =
     (let count = length argv;
          req_argv = [Some (program_name (program cline))];
          stdin = stdin_index cline count;
          (req_argv, proc) = create_argv_loop argv stdin 1 (req_argv, proc)
      in (req_argv @ [None], proc))"

text \<open>\<^verbatim>\<open>create_argv_help\<close>.\<close>

definition create_argv_help :: "string \<Rightarrow> string \<Rightarrow> string option \<Rightarrow> string option list" where
  "create_argv_help path cmd sub =
     (case sub of
        None \<Rightarrow> [Some (program_name path), Some cmd, None]
      | Some s \<Rightarrow> [Some (program_name path), Some cmd, Some s, None])"

text \<open>What \<^verbatim>\<open>execv\<close> hands to the program: the strings before the first \<^verbatim>\<open>NULL\<close> cell.\<close>

definition argv_strings :: "string option list \<Rightarrow> string list" where
  "argv_strings a = map the (takeWhile (\<lambda>x. x \<noteq> None) a)"

text \<open>The wording of the specification for \<^verbatim>\<open>c[0]\<close>: the final path segment after the last
  slash, or the whole string if there is none.\<close>

definition spec_basename :: "string \<Rightarrow> string" where
  "spec_basename path = rev (takeWhile (\<lambda>c. c \<noteq> CHR ''/'') (rev path))"

text \<open>The wording of the specification for the stdin argument: \<open>- 1\<close> resolves to the
  last index of the caller's vector, any other value is the index itself.\<close>

definition spec_stdin_index :: "confline \<Rightarrow> iovec list \<Rightarrow> int" where
  "spec_stdin_index cline argv =
     (if stdin_arg cline = - 1 then int (length argv) - 1 else stdin_arg cline)"

section \<open>Session, transport and operating system\<close>

datatype error_code =
    ERROR_INTERNAL | ERROR_BAD_COMMAND | ERROR_UNKNOWN_COMMAND
  | ERROR_ACCESS | ERROR_TOOMANY_ARGS | ERROR_NO_HELP

text \<open>Modelled from the spec: the transport functions \<^verbatim>\<open>server_send_error\<close>,
  \<^verbatim>\<open>server_v1_send_output\<close>, \<^verbatim>\<open>server_v2_send_output\<close> and \<^verbatim>\<open>server_v2_send_status\<close> are
  defined outside commands.c.  By section 6 of the specification each call emits one frame
  to the session: an error frame, the protocol-1 terminal frame with buffer and status, a
  protocol-2 chunk frame tagged with its stream, the protocol-2 terminal frame.  A frame
  below is one such call with its arguments, in the order the calls are made.\<close>

datatype frame =
    Send_error error_code
  | V1_send_output "iovec option" int
  | V2_send_output nat iovec
  | V2_send_status int

text \<open>The terminal frames of the specification: ERROR, STATUS and V1_OUTPUT.\<close>

fun terminal :: "frame \<Rightarrow> bool" where
  "terminal (Send_error e) = True"
| "terminal (V1_send_output b s) = True"
| "terminal (V2_send_status s) = True"
| "terminal (V2_send_output n b) = False"

record client =
  protocol :: int
  user :: string

text \<open>One call of \<^verbatim>\<open>server_exec\<close>: its arguments, whether it reached a successful
  \<^verbatim>\<open>fork\<close>, and the value it returned.\<close>

record exec_call =
  ex_command :: string
  ex_argv :: "string option list"
  ex_cline :: confline
  ex_input :: "iovec option"
  ex_forked :: bool
  ex_ok :: bool

text \<open>What an invocation does to the outside: the frames sent to the session, the calls
  of \<^verbatim>\<open>server_exec\<close>, and the number of calls of
  \<^verbatim>\<open>event_base_loop(loop, EVLOOP_NONBLOCK)\<close>.\<close>

record world =
  sent :: "frame list"
  execs :: "exec_call list"
  nonblock_passes :: nat

definition empty_world :: world where
  "empty_world = \<lparr>sent = [], execs = [], nonblock_passes = 0\<rparr>"

definition server_send_error :: "error_code \<Rightarrow> world \<Rightarrow> world" where
  "server_send_error e w = w\<lparr>sent := sent w @ [Send_error e]\<rparr>"

text \<open>What libevent does during a run of the event loop, as far as commands.c can tell.
  \<open>Buffered b bytes\<close>: libevent read \<open>bytes\<close> from the child into the input buffer of
  bufferevent \<open>b\<close> and made no callback (the buffer is below the read low-watermark).
  \<open>Readcb b bytes ok\<close>: libevent read \<open>bytes\<close> into the input buffer of \<open>b\<close> and called the
  read callback installed on \<open>b\<close>; \<open>ok\<close> is what \<^verbatim>\<open>server_v2_send_output\<close> returns if the
  callback calls it.  \<open>Writecb\<close>: the write callback.  \<open>Eventcb b eof err errno\<close>: the event
  callback with \<^verbatim>\<open>events & BEV_EVENT_EOF\<close>, \<^verbatim>\<open>events & BEV_EVENT_ERROR\<close> and
  \<^verbatim>\<open>socket_errno\<close>.  \<open>Sigchld r\<close>: the SIGCHLD event, where \<open>r\<close> is the status stored by
  \<^verbatim>\<open>waitpid(pid, &status, WNOHANG)\<close> when it returns the child, \<open>None\<close> otherwise.\<close>

datatype bev = Inout | Err

datatype sock_errno = ECONNRESET | EPIPE | Other_errno

datatype callback =
    Buffered bev iovec
  | Readcb bev iovec bool
  | Writecb
  | Eventcb bev bool bool sock_errno
  | Sigchld "wstatus option"

text \<open>What the operating system and libevent do during one call of \<^verbatim>\<open>server_exec\<close>:
  whether the two \<^verbatim>\<open>socketpair\<close> calls and \<^verbatim>\<open>fork\<close> succeed, the activity during
  \<^verbatim>\<open>event_base_dispatch\<close>, the activity during each successive non-blocking pass (passes
  after the end of the list have none), and the status stored by the blocking
  \<^verbatim>\<open>waitpid\<close>.\<close>

record os_env =
  socketpair_stdinout_ok :: bool
  socketpair_stderr_ok :: bool
  fork_ok :: bool
  dispatch_cbs :: "callback list"
  nonblock_cbs :: "callback list list"
  waitpid_status :: wstatus

section \<open>I/O multiplexer\<close>

text \<open>\<^verbatim>\<open>bufferevent_get_input(bev)\<close> and the update of that buffer.\<close>

definition get_input :: "bev \<Rightarrow> process \<Rightarrow> iovec" where
  "get_input b p = (if b = Inout then inout_input p else err_input p)"

definition set_input :: "bev \<Rightarrow> iovec \<Rightarrow> process \<Rightarrow> process" where
  "set_input b buf p = (if b = Inout then p\<lparr>inout_input := buf\<rparr> else p\<lparr>err_input := buf\<rparr>)"

text \<open>\<^verbatim>\<open>handle_output\<close>, the read callback of protocol two and later:
  \<^verbatim>\<open>server_v2_send_output\<close> takes the bytes out of the buffer it is given.\<close>

definition handle_output :: "bev \<Rightarrow> bool \<Rightarrow> world \<times> process \<Rightarrow> world \<times> process" where
  "handle_output b ok st =
     (let (w, p) = st;
          p = p\<lparr>saw_output := True\<rparr>;
          stream = (if b = Inout then 1 else 2);
          buf = get_input b p;
          w = w\<lparr>sent := sent w @ [V2_send_output stream buf]\<rparr>;
          p = set_input b [] p
      in if \<not> ok then (w, p\<lparr>got_break := True\<rparr>) else (w, p))"

text \<open>\<^verbatim>\<open>handle_output_full\<close>, the first read callback of protocol one: move the input
  buffer to a new \<^verbatim>\<open>process->output\<close>, then
  \<^verbatim>\<open>bufferevent_setcb(bev, handle_output_discard, writecb, NULL, data)\<close>, which installs
  \<^verbatim>\<open>handle_output_discard\<close> as read callback and leaves the bufferevent without event
  callback.\<close>

definition handle_output_full :: "bev \<Rightarrow> world \<times> process \<Rightarrow> world \<times> process" where
  "handle_output_full b st =
     (let (w, p) = st;
          p = p\<lparr>output_buf := Some (get_input b p)\<rparr>;
          p = set_input b [] p
      in if b = Inout
         then (w, p\<lparr>inout_readcb := Some Handle_output_discard, inout_eventcb := False\<rparr>)
         else (w, p\<lparr>err_readcb := Some Handle_output_discard, err_eventcb := False\<rparr>))"

text \<open>\<^verbatim>\<open>handle_output_discard\<close> drains the input buffer.\<close>

definition handle_output_discard :: "bev \<Rightarrow> world \<times> process \<Rightarrow> world \<times> process" where
  "handle_output_discard b st = (let (w, p) = st in (w, set_input b [] p))"

text \<open>\<^verbatim>\<open>handle_io_event\<close>: end of file and a reset or closed pipe only disable the
  bufferevent; any other event sends ERROR_INTERNAL and breaks the loop.\<close>

definition handle_io_event ::
  "bev \<Rightarrow> bool \<Rightarrow> bool \<Rightarrow> sock_errno \<Rightarrow> world \<times> process \<Rightarrow> world \<times> process" where
  "handle_io_event b eof err errno st =
     (let (w, p) = st in
      if eof then (w, p)
      else if err \<and> (errno = ECONNRESET \<or> errno = EPIPE) then (w, p)
      else (server_send_error ERROR_INTERNAL w, p\<lparr>got_break := True\<rparr>))"

text \<open>\<^verbatim>\<open>handle_child_exit\<close>.\<close>

definition handle_child_exit :: "wstatus option \<Rightarrow> world \<times> process \<Rightarrow> world \<times> process" where
  "handle_child_exit r st =
     (let (w, p) = st in
      case r of
        Some s \<Rightarrow> (w, p\<lparr>wstatus := s, reaped := True\<rparr>)
      | None \<Rightarrow> (w, p))"

text \<open>One step of the event loop.  libevent calls the read callback that is installed at
  the time of the call; a bufferevent that does not exist reads nothing.  It calls
  \<^verbatim>\<open>handle_io_event\<close> only on a bufferevent whose event callback is installed; where that
  callback is \<^verbatim>\<open>NULL\<close>, an end of file or an error runs no code of commands.c.
  \<^verbatim>\<open>handle_input_end\<close> (the write callback) shuts down the write side of the socket and
  touches neither the process record nor the session.  \<^verbatim>\<open>bufferevent_disable\<close> only
  restricts what libevent does later on that bufferevent, that is the activity the
  environment lists; the properties below hold for every list.\<close>

definition installed :: "bev \<Rightarrow> process \<Rightarrow> read_handler option" where
  "installed b p = (if b = Inout then inout_readcb p else err_readcb p)"

definition event_installed :: "bev \<Rightarrow> process \<Rightarrow> bool" where
  "event_installed b p = (if b = Inout then inout_eventcb p else err_eventcb p)"

fun run_callback :: "callback \<Rightarrow> world \<times> process \<Rightarrow> world \<times> process" where
  "run_callback (Buffered b bytes) (w, p) =
     (case installed b p of
        None \<Rightarrow> (w, p)
      | Some h \<Rightarrow> (w, set_input b (get_input b p @ bytes) p))"
| "run_callback (Readcb b bytes ok) (w, p) =
     (case installed b p of
        None \<Rightarrow> (w, p)
      | Some Handle_output \<Rightarrow> handle_output b ok (w, set_input b (get_input b p @ bytes) p)
      | Some Handle_output_full \<Rightarrow> handle_output_full b (w, set_input b (get_input b p @ bytes) p)
      | Some Handle_output_discard \<Rightarrow>
          handle_output_discard b (w, set_input b (get_input b p @ bytes) p))"
| "run_callback Writecb (w, p) = (w, p)"
| "run_callback (Eventcb b eof err errno) (w, p) =
     (if event_installed b p then handle_io_event b eof err errno (w, p) else (w, p))"
| "run_callback (Sigchld r) (w, p) = handle_child_exit r (w, p)"

text \<open>One run of the event loop over the activity the environment has for it:
  \<^verbatim>\<open>event_base_loopbreak\<close> stops the run after the current callback.\<close>

fun event_loop :: "callback list \<Rightarrow> world \<times> process \<Rightarrow> world \<times> process" where
  "event_loop [] st = st"
| "event_loop (cb # cbs) st =
     (let (w, p) = run_callback cb st
      in if got_break p then (w, p) else event_loop cbs (w, p))"

text \<open>The post-exit drain:
  \<^verbatim>\<open>do { saw_output = false; event_base_loop(loop, EVLOOP_NONBLOCK); }
  while (saw_output && !event_base_got_break(loop));\<close>\<close>

fun drain :: "callback list list \<Rightarrow> world \<times> process \<Rightarrow> world \<times> process" where
  "drain [] (w, p) =
     (w\<lparr>nonblock_passes := Suc (nonblock_passes w)\<rparr>, p\<lparr>saw_output := False\<rparr>)"
| "drain (pass # rest) (w, p) =
     (let (w, p) = event_loop pass
                     (w\<lparr>nonblock_passes := Suc (nonblock_passes w)\<rparr>, p\<lparr>saw_output := False\<rparr>)
      in if saw_output p \<and> \<not> got_break p then drain rest (w, p) else (w, p))"

text \<open>The set-up at the start of \<^verbatim>\<open>server_process_output\<close>: a new event base (not
  broken), the bufferevent \<^verbatim>\<open>inout\<close> and, under protocol two and later, the bufferevent
  \<^verbatim>\<open>err\<close>, with empty buffers, the read callback of the protocol and \<^verbatim>\<open>handle_io_event\<close> as
  event callback.\<close>

definition setup_bufferevents :: "client \<Rightarrow> process \<Rightarrow> process" where
  "setup_bufferevents c p =
     (let p = p\<lparr>inout_input := [], err_input := [], got_break := False\<rparr>
      in if protocol c = 1
         then p\<lparr>inout_readcb := Some Handle_output_full, inout_eventcb := True\<rparr>
         else p\<lparr>inout_readcb := Some Handle_output, inout_eventcb := True,
                err_readcb := Some Handle_output, err_eventcb := True\<rparr>)"

text \<open>\<^verbatim>\<open>server_process_output\<close>: set up, run the loop, return false if it was broken,
  else drain; under protocol one pull what the input buffer holds into
  \<^verbatim>\<open>process->output\<close> unless \<^verbatim>\<open>handle_output_full\<close> has filled it; free the
  bufferevents.\<close>

definition server_process_output ::
  "os_env \<Rightarrow> client \<Rightarrow> world \<times> process \<Rightarrow> bool \<times> world \<times> process" where
  "server_process_output os c st =
     (let (w, p) = st;
          p = setup_bufferevents c p;
          (w, p) = event_loop (dispatch_cbs os) (w, p)
      in if got_break p then (False, w, p)
         else
           (let (w, p) = drain (nonblock_cbs os) (w, p);
                p = (if protocol c = 1 \<and> output_buf p = None
                     then p\<lparr>output_buf := Some (inout_input p), inout_input := []\<rparr> else p);
                success = (\<not> got_break p)
            in (success, w, p\<lparr>inout_readcb := None, err_readcb := None,
                                inout_eventcb := False, err_eventcb := False\<rparr>)))"

section \<open>Process launcher\<close>

text \<open>\<^verbatim>\<open>server_exec\<close>, on the side of the parent.  \<^verbatim>\<open>WIFEXITED\<close> and \<^verbatim>\<open>WEXITSTATUS\<close> read
  the raw status: an exit gives its low eight bits, anything else gives \<open>- 1\<close>.  The
  payload that the child is to read on its standard input is \<^verbatim>\<open>process->input\<close> at the
  time of the call, kept in \<open>ex_input\<close>.\<close>

definition server_exec ::
  "os_env \<Rightarrow> client \<Rightarrow> string \<Rightarrow> string option list \<Rightarrow> confline \<Rightarrow> world \<times> process
     \<Rightarrow> bool \<times> world \<times> process" where
  "server_exec os c cmd req_argv cline st =
     (let (w, p) = st;
          call = \<lparr>ex_command = cmd, ex_argv = req_argv, ex_cline = cline,
                  ex_input = input p, ex_forked = False, ex_ok = False\<rparr>;
          failed = (False, server_send_error ERROR_INTERNAL (w\<lparr>execs := execs w @ [call]\<rparr>), p)
      in if \<not> socketpair_stdinout_ok os then failed
         else if protocol c > 1 \<and> \<not> socketpair_stderr_ok os then failed
         else if \<not> fork_ok os then failed
         else
           (let (ok, w, p) = server_process_output os c (w, p);
                p = (if \<not> reaped p then p\<lparr>wstatus := waitpid_status os\<rparr> else p);
                p = (case wstatus p of
                       Exited n \<Rightarrow> p\<lparr>status := int (n mod 256)\<rparr>
                     | Signaled \<Rightarrow> p\<lparr>status := - 1\<rparr>)
            in (ok, w\<lparr>execs := execs w @ [call\<lparr>ex_forked := True, ex_ok := ok\<rparr>]\<rparr>, p)))"

text \<open>The child's standard input, lines 447 to 456 of \<^verbatim>\<open>server_exec\<close>, on a table from
  descriptor numbers to what they are open on.  \<open>sock\<close> is \<^verbatim>\<open>stdinout_fds[1]\<close> and \<open>fd\<close> is
  what \<^verbatim>\<open>open("/dev/null", O_RDONLY)\<close> returns (negative on failure).\<close>

datatype fdesc = Stdinout_socket | Stderr_socket | Dev_null | Inherited

definition child_stdin ::
  "process \<Rightarrow> nat \<Rightarrow> int \<Rightarrow> (nat \<Rightarrow> fdesc option) \<Rightarrow> (nat \<Rightarrow> fdesc option)" where
  "child_stdin p sock fd fds =
     (if input p \<noteq> None then fds(0 := fds sock)
      else
        (let fds = fds(0 := None);
             fds = (if 0 \<le> fd then fds(nat fd := Some Dev_null) else fds)
         in if fd > 0 then (fds(0 := fds (nat fd)))(nat fd := None) else fds))"

section \<open>Command dispatcher\<close>

text \<open>The ACL evaluator \<^verbatim>\<open>server_config_acl_permit\<close> is a parameter \<open>permit\<close> of the
  dispatcher.  The environment of the \<open>n\<close>-th call of \<^verbatim>\<open>server_exec\<close> within an invocation
  is \<open>os n\<close>, counting from zero.\<close>

text \<open>The summary sweep, \<^verbatim>\<open>server_send_summary\<close>: first its loop over the rules, with the
  locals \<^verbatim>\<open>ok_any\<close>, \<^verbatim>\<open>status_all\<close> and \<^verbatim>\<open>output\<close> as loop state.
  \<^verbatim>\<open>evbuffer_add_buffer(output, process.output)\<close> appends the bytes of the second buffer to
  the first; under protocol one both buffers exist whenever \<^verbatim>\<open>server_exec\<close> has
  succeeded.\<close>

fun summary_loop ::
  "(nat \<Rightarrow> os_env) \<Rightarrow> (confline \<Rightarrow> string \<Rightarrow> bool) \<Rightarrow> client \<Rightarrow> confline list
     \<Rightarrow> world \<times> bool \<times> int \<times> iovec option \<Rightarrow> world \<times> bool \<times> int \<times> iovec option" where
  "summary_loop os permit c [] st = st"
| "summary_loop os permit c (cline # rules) (w, ok_any, status_all, out) =
     (if subcommand cline \<noteq> ''ALL'' then
        summary_loop os permit c rules (w, ok_any, status_all, out)
      else if \<not> permit cline (user c) then
        summary_loop os permit c rules (w, ok_any, status_all, out)
      else if summary cline = None then
        summary_loop os permit c rules (w, ok_any, status_all, out)
      else
        (let ok_any = True;
             req_argv = [Some (program_name (program cline)), summary cline, None];
             (ok, w, p) = server_exec (os (length (execs w))) c (the (summary cline))
                            req_argv cline (w, empty_process);
             out = (if ok \<and> protocol c = 1
                    then Some (the out @ the (output_buf p)) else out);
             status_all = (if ok \<and> status p \<noteq> 0 then status p else status_all)
         in summary_loop os permit c rules (w, ok_any, status_all, out)))"

definition server_send_summary ::
  "(nat \<Rightarrow> os_env) \<Rightarrow> (confline \<Rightarrow> string \<Rightarrow> bool) \<Rightarrow> client \<Rightarrow> confline list
     \<Rightarrow> world \<Rightarrow> world" where
  "server_send_summary os permit c config w =
     (let out = (if protocol c = 1 then Some [] else None);
          (w, ok_any, status_all, out) = summary_loop os permit c config (w, False, 0, out)
      in if ok_any then
           (if protocol c = 1 then w\<lparr>sent := sent w @ [V1_send_output out status_all]\<rparr>
            else w\<lparr>sent := sent w @ [V2_send_status status_all]\<rparr>)
         else server_send_error ERROR_UNKNOWN_COMMAND w)"

text \<open>The tail guard of \<^verbatim>\<open>server_run_command\<close>, the loop
  \<^verbatim>\<open>for (i = 1; argv[i] != NULL; i++)\<close>: true when it rejects an argument.  The vector ends
  at index \<open>length argv\<close>, so \<^verbatim>\<open>argv[i + 1] == NULL\<close> reads \<open>Suc i = length argv\<close>.\<close>

function nul_check :: "confline option \<Rightarrow> bool \<Rightarrow> iovec list \<Rightarrow> nat \<Rightarrow> bool" where
  "nul_check cline is_help argv i =
     (if i < length argv then
        (if cline \<noteq> None \<and> is_help = False \<and> int i = stdin_arg (the cline) then
           nul_check cline is_help argv (Suc i)
         else if cline \<noteq> None \<and> Suc i = length argv \<and> stdin_arg (the cline) = - 1 then
           nul_check cline is_help argv (Suc i)
         else if has_nul (argv ! i) then True
         else nul_check cline is_help argv (Suc i))
      else False)"
  by pat_completeness auto
termination
  by (relation "measure (\<lambda>(cline, is_help, argv, i). length argv - i)") auto

declare nul_check.simps [simp del]

text \<open>\<^verbatim>\<open>server_run_command\<close> from the tail guard (line 841) to the end, given the locals
  \<^verbatim>\<open>command\<close>, \<^verbatim>\<open>subcommand\<close>, \<^verbatim>\<open>helpsubcommand\<close>, \<^verbatim>\<open>help\<close> and \<^verbatim>\<open>cline\<close> as the first
  part leaves them.\<close>

definition run_matched ::
  "(nat \<Rightarrow> os_env) \<Rightarrow> (confline \<Rightarrow> string \<Rightarrow> bool) \<Rightarrow> client \<Rightarrow> iovec list \<Rightarrow> string
     \<Rightarrow> string option \<Rightarrow> string option \<Rightarrow> bool \<Rightarrow> confline option \<Rightarrow> world \<Rightarrow> world" where
  "run_matched os permit c argv cmd sub helpsub is_help cline w =
     (if nul_check cline is_help argv 1 then server_send_error ERROR_BAD_COMMAND w
      else case cline of
        None \<Rightarrow> server_send_error ERROR_UNKNOWN_COMMAND w
      | Some r \<Rightarrow>
          if \<not> permit r (user c) then server_send_error ERROR_ACCESS w
          else if is_help \<and> help_cmd r = None then server_send_error ERROR_NO_HELP w
          else
            (let sub = (if is_help then help_cmd r else sub);
                 (req_argv, p) =
                    (if is_help then (create_argv_help (program r) (the sub) helpsub, empty_process)
                     else create_argv_command r empty_process argv);
                 (ok, w, p) = server_exec (os (length (execs w))) c cmd req_argv r (w, p)
             in if ok then
                  (if protocol c = 1
                   then w\<lparr>sent := sent w @ [V1_send_output (output_buf p) (status p)]\<rparr>
                   else w\<lparr>sent := sent w @ [V2_send_status (status p)]\<rparr>)
                else w))"

text \<open>\<^verbatim>\<open>server_run_command\<close> from its entry to the rule lookup (line 839).  The vector is
  the list of the entries before the terminating \<^verbatim>\<open>NULL\<close>, so \<^verbatim>\<open>argv[k] != NULL\<close> for all
  \<open>k \<le> n\<close> reads \<open>n < length argv\<close>.\<close>

definition server_run_command ::
  "(nat \<Rightarrow> os_env) \<Rightarrow> (confline \<Rightarrow> string \<Rightarrow> bool) \<Rightarrow> client \<Rightarrow> confline list
     \<Rightarrow> iovec list \<Rightarrow> world \<Rightarrow> world" where
  "server_run_command os permit c config argv w =
     (if argv = [] then server_send_error ERROR_BAD_COMMAND w
      else if list_ex has_nul (take 2 argv) then server_send_error ERROR_BAD_COMMAND w
      else
        (let cmd = xstrndup (argv ! 0);
             sub = (if 1 < length argv then Some (xstrndup (argv ! 1)) else None);
             cline = find_config_line config (Some cmd) sub
         in if cline = None \<and> cmd = ''help'' then
              (let w = (if 3 < length argv then server_send_error ERROR_TOOMANY_ARGS w else w)
               in if sub = None then server_send_summary os permit c config w
                  else
                    (let helpsub = (if 2 < length argv then Some (xstrndup (argv ! 2)) else None);
                         cline = find_config_line config sub helpsub
                     in run_matched os permit c argv cmd sub helpsub True cline w))
            else run_matched os permit c argv cmd sub None False cline w))"

text \<open>The flag \<^verbatim>\<open>help\<close> and the rule \<^verbatim>\<open>cline\<close> with which \<^verbatim>\<open>server_run_command\<close> reaches its
  tail guard (lines 818 to 839), for a vector with at least one token: the rule found for
  the command and subcommand, or, when there is none and the request is
  \<^verbatim>\<open>help <command> ...\<close>, the rule found for the command asked about.\<close>

definition matched_rule :: "confline list \<Rightarrow> iovec list \<Rightarrow> bool \<times> confline option" where
  "matched_rule config argv =
     (let cmd = xstrndup (argv ! 0);
          sub = (if 1 < length argv then Some (xstrndup (argv ! 1)) else None);
          helpsub = (if 2 < length argv then Some (xstrndup (argv ! 2)) else None);
          cline = find_config_line config (Some cmd) sub
      in if cline = None \<and> cmd = ''help'' \<and> sub \<noteq> None
         then (True, find_config_line config sub helpsub)
         else (False, cline))"

text \<open>The rules that take part in a summary sweep.\<close>

definition qualifies :: "(confline \<Rightarrow> string \<Rightarrow> bool) \<Rightarrow> client \<Rightarrow> confline \<Rightarrow> bool" where
  "qualifies permit c r \<longleftrightarrow>
     subcommand r = ''ALL'' \<and> permit r (user c) \<and> summary r \<noteq> None"

section \<open>Notions used in the properties\<close>

text \<open>Activity that calls a read callback; the callbacks installed under protocol two
  and later (\<^verbatim>\<open>handle_output\<close> on both bufferevents) and under protocol one (never
  \<^verbatim>\<open>handle_output\<close>).\<close>

fun is_readcb :: "callback \<Rightarrow> bool" where
  "is_readcb (Readcb b bytes ok) = True"
| "is_readcb cb = False"

definition v2_handlers :: "process \<Rightarrow> bool" where
  "v2_handlers p \<longleftrightarrow> inout_readcb p = Some Handle_output \<and> err_readcb p = Some Handle_output"

definition v1_handlers :: "process \<Rightarrow> bool" where
  "v1_handlers p \<longleftrightarrow> inout_readcb p \<noteq> Some Handle_output \<and> err_readcb p \<noteq> Some Handle_output"

text \<open>A transport that works: \<^verbatim>\<open>server_v2_send_output\<close> never fails during the call of
  \<^verbatim>\<open>server_exec\<close>.  The number of terminal frames among the frames sent.\<close>

fun send_ok :: "callback \<Rightarrow> bool" where
  "send_ok (Readcb b bytes ok) = ok"
| "send_ok cb = True"

definition transport_ok :: "os_env \<Rightarrow> bool" where
  "transport_ok os \<longleftrightarrow>
     list_all send_ok (dispatch_cbs os) \<and> list_all (list_all send_ok) (nonblock_cbs os)"

definition terminals :: "frame list \<Rightarrow> nat" where
  "terminals fs = length (filter terminal fs)"

section \<open>Example data\<close>

definition rule ::
  "string \<Rightarrow> string \<Rightarrow> string \<Rightarrow> int \<Rightarrow> string option \<Rightarrow> string option \<Rightarrow> confline" where
  "rule cmd sub prog sa summ hlp =
     \<lparr>command = cmd, subcommand = sub, program = prog, stdin_arg = sa, summary = summ,
      help_cmd = hlp, acls = []\<rparr>"

text \<open>A child that exits with status zero during the dispatch and writes nothing.\<close>

definition quiet_os :: os_env where
  "quiet_os = \<lparr>socketpair_stdinout_ok = True, socketpair_stderr_ok = True, fork_ok = True,
     dispatch_cbs = [Sigchld (Some (Exited 0))], nonblock_cbs = [],
     waitpid_status = Exited 0\<rparr>"

text \<open>An ACL evaluator that admits everyone, an environment that is the same for every
  call of \<^verbatim>\<open>server_exec\<close>, and a client of each protocol.\<close>

definition permit_all :: "confline \<Rightarrow> string \<Rightarrow> bool" where
  "permit_all r u = True"

definition always :: "os_env \<Rightarrow> nat \<Rightarrow> os_env" where
  "always e n = e"

definition client_v1 :: client where
  "client_v1 = \<lparr>protocol = 1, user = ''u''\<rparr>"

definition client_v2 :: client where
  "client_v2 = \<lparr>protocol = 2, user = ''u''\<rparr>"

section \<open>Properties of the rule matcher\<close>

lemma line_matches_spec: "line_matches r cmd sub = spec_rule_matches r cmd sub"
  by (cases cmd; cases sub)
     (auto simp: line_matches_def spec_rule_matches_def spec_field_matches_def)

lemma find_config_line_None:
  "find_config_line rules cmd sub = None \<longleftrightarrow> (\<forall>r \<in> set rules. \<not> line_matches r cmd sub)"
  by (induction rules) auto

lemma find_config_line_Some:
  "find_config_line rules cmd sub = Some r \<longleftrightarrow>
     (\<exists>i < length rules. rules ! i = r \<and> line_matches r cmd sub \<and>
        (\<forall>j < i. \<not> line_matches (rules ! j) cmd sub))"
proof (induction rules)
  case Nil
  show ?case by simp
next
  case (Cons a rules)
  show ?case
  proof (cases "line_matches a cmd sub")
    case True
    have "(\<exists>i < length (a # rules). (a # rules) ! i = r \<and> line_matches r cmd sub \<and>
            (\<forall>j < i. \<not> line_matches ((a # rules) ! j) cmd sub)) \<longleftrightarrow> a = r"
    proof
      assume "\<exists>i < length (a # rules). (a # rules) ! i = r \<and> line_matches r cmd sub \<and>
            (\<forall>j < i. \<not> line_matches ((a # rules) ! j) cmd sub)"
      then obtain i where i: "(a # rules) ! i = r"
        and first: "\<forall>j < i. \<not> line_matches ((a # rules) ! j) cmd sub" by blast
      have "i = 0"
      proof (rule ccontr)
        assume "i \<noteq> 0"
        then have "0 < i" by simp
        with first have "\<not> line_matches ((a # rules) ! 0) cmd sub" by blast
        with True show False by simp
      qed
      with i show "a = r" by simp
    next
      assume "a = r"
      with True have "(a # rules) ! 0 = r \<and> line_matches r cmd sub \<and>
            (\<forall>j < 0. \<not> line_matches ((a # rules) ! j) cmd sub)" by simp
      then show "\<exists>i < length (a # rules). (a # rules) ! i = r \<and> line_matches r cmd sub \<and>
            (\<forall>j < i. \<not> line_matches ((a # rules) ! j) cmd sub)" by (intro exI[of _ 0]) simp
    qed
    with True show ?thesis by simp
  next
    case False
    have "(\<exists>i < length (a # rules). (a # rules) ! i = r \<and> line_matches r cmd sub \<and>
            (\<forall>j < i. \<not> line_matches ((a # rules) ! j) cmd sub)) \<longleftrightarrow>
          (\<exists>i < length rules. rules ! i = r \<and> line_matches r cmd sub \<and>
            (\<forall>j < i. \<not> line_matches (rules ! j) cmd sub))" (is "?L \<longleftrightarrow> ?R")
    proof
      assume ?L
      then obtain i where i: "i < length (a # rules)" "(a # rules) ! i = r"
        "line_matches r cmd sub"
        and first: "\<forall>j < i. \<not> line_matches ((a # rules) ! j) cmd sub" by blast
      from i False have "i \<noteq> 0" by (cases i) auto
      then obtain k where k: "i = Suc k" by (cases i) auto
      have "\<forall>j < k. \<not> line_matches (rules ! j) cmd sub"
      proof (intro allI impI)
        fix j assume "j < k"
        then have "Suc j < i" using k by simp
        with first have "\<not> line_matches ((a # rules) ! Suc j) cmd sub" by blast
        then show "\<not> line_matches (rules ! j) cmd sub" by simp
      qed
      with i k show ?R by (intro exI[of _ k]) simp
    next
      assume ?R
      then obtain k where k: "k < length rules" "rules ! k = r" "line_matches r cmd sub"
        and first: "\<forall>j < k. \<not> line_matches (rules ! j) cmd sub" by blast
      have "\<forall>j < Suc k. \<not> line_matches ((a # rules) ! j) cmd sub"
      proof (intro allI impI)
        fix j assume "j < Suc k"
        then show "\<not> line_matches ((a # rules) ! j) cmd sub"
          using False first by (cases j) auto
      qed
      with k show ?L by (intro exI[of _ "Suc k"]) simp
    qed
    with False Cons.IH show ?thesis by simp
  qed
qed

text \<open>
  Claim C4.  For every policy table, command and optional subcommand, the lookup returns
  the earliest rule, in declaration order, whose command field and subcommand field both
  match in the three-way sense of the specification (\<^verbatim>\<open>"ALL"\<close>, literal equality, or
  \<^verbatim>\<open>"EMPTY"\<close> for an absent token); it returns nothing exactly when no rule matches both.
\<close>

theorem find_config_line_earliest_match:
  "(find_config_line rules cmd sub = None \<longleftrightarrow>
      (\<forall>r \<in> set rules. \<not> spec_rule_matches r cmd sub)) \<and>
   (find_config_line rules cmd sub = Some r \<longleftrightarrow>
      (\<exists>i < length rules. rules ! i = r \<and> spec_rule_matches r cmd sub \<and>
         (\<forall>j < i. \<not> spec_rule_matches (rules ! j) cmd sub)))"
  using find_config_line_None [of rules cmd sub] find_config_line_Some [of rules cmd sub r]
  by (simp add: line_matches_spec)

theorem find_config_line_earliest_match_witness:
  "find_config_line
     [rule ''echo'' ''hi'' ''/bin/echo'' 0 None None,
      rule ''cat'' ''ALL'' ''/bin/cat'' (- 1) None None,
      rule ''ALL'' ''ALL'' ''/bin/any'' 0 None None]
     (Some ''cat'') (Some ''feed'') = Some (rule ''cat'' ''ALL'' ''/bin/cat'' (- 1) None None) \<and>
   spec_rule_matches (rule ''cat'' ''ALL'' ''/bin/cat'' (- 1) None None)
     (Some ''cat'') (Some ''feed'') \<and>
   \<not> spec_rule_matches (rule ''echo'' ''hi'' ''/bin/echo'' 0 None None)
     (Some ''cat'') (Some ''feed'')"
proof -
  let ?r0 = "rule ''echo'' ''hi'' ''/bin/echo'' 0 None None"
  let ?r1 = "rule ''cat'' ''ALL'' ''/bin/cat'' (- 1) None None"
  let ?r2 = "rule ''ALL'' ''ALL'' ''/bin/any'' 0 None None"
  let ?cfg = "[?r0, ?r1, ?r2]"
  have f: "find_config_line ?cfg (Some ''cat'') (Some ''feed'') = Some ?r1"
    by (simp add: line_matches_def rule_def)
  from find_config_line_earliest_match [of ?cfg "Some ''cat''" "Some ''feed''" ?r1] f
  obtain i where i: "i < length ?cfg" "?cfg ! i = ?r1"
    and m: "spec_rule_matches ?r1 (Some ''cat'') (Some ''feed'')"
    and first: "\<forall>j < i. \<not> spec_rule_matches (?cfg ! j) (Some ''cat'') (Some ''feed'')"
    by blast
  have "?cfg ! 0 \<noteq> ?r1" by (simp add: rule_def)
  with i have "0 < i" by (cases i) auto
  with first have "\<not> spec_rule_matches (?cfg ! 0) (Some ''cat'') (Some ''feed'')" by blast
  with f m show ?thesis by simp
qed

section \<open>Properties of the argv builder\<close>

lemma strrchr_None: "strrchr s c = None \<longleftrightarrow> c \<notin> set s"
  by (induction s) (auto split: option.splits)

lemma strrchr_Some:
  "strrchr s c = Some p \<Longrightarrow> \<exists>pre rest. s = pre @ c # rest \<and> p = c # rest \<and> c \<notin> set rest"
proof (induction s arbitrary: p)
  case Nil
  then show ?case by simp
next
  case (Cons x xs)
  show ?case
  proof (cases "strrchr xs c")
    case None
    with Cons.prems have "x = c" and "p = x # xs" by (auto split: if_splits)
    moreover from None have "c \<notin> set xs" by (simp add: strrchr_None)
    ultimately show ?thesis by (intro exI[of _ "[]"] exI[of _ xs]) simp
  next
    case (Some q)
    with Cons.prems have "q = p" by simp
    with Some Cons.IH obtain pre rest where "xs = pre @ c # rest" "p = c # rest" "c \<notin> set rest"
      by blast
    then show ?thesis by (intro exI[of _ "x # pre"] exI[of _ rest]) simp
  qed
qed

lemma program_name_spec: "program_name path = spec_basename path"
proof (cases "strrchr path (CHR ''/'')")
  case None
  then have "CHR ''/'' \<notin> set path" by (simp add: strrchr_None)
  then have tw: "takeWhile (\<lambda>c. c \<noteq> CHR ''/'') (rev path) = rev path"
    by (simp add: takeWhile_eq_all_conv) blast
  show ?thesis unfolding program_name_def spec_basename_def None tw by simp
next
  case (Some p)
  then obtain pre rest where *: "path = pre @ CHR ''/'' # rest" "p = CHR ''/'' # rest"
    "CHR ''/'' \<notin> set rest" using strrchr_Some by blast
  have "takeWhile (\<lambda>c. c \<noteq> CHR ''/'') (rev rest @ CHR ''/'' # rev pre) = rev rest"
    using * by (subst takeWhile_append2) auto
  with * Some show ?thesis by (simp add: program_name_def spec_basename_def)
qed

lemma xstrndup_id: "\<not> has_nul a \<Longrightarrow> xstrndup a = a"
  unfolding xstrndup_def has_nul_def by (intro takeWhile_eq_all_conv[THEN iffD2]) auto

lemma xstrndup_Nil: "xstrndup [] = []"
  by (simp add: xstrndup_def)

lemma filter_neq_upt: "k < i \<Longrightarrow> filter (\<lambda>j. j \<noteq> k) [i..<n] = [i..<n]"
  by (rule filter_True) auto

lemma create_argv_loop_eq:
  "create_argv_loop argv k i (req, p) =
     (req @ map (\<lambda>j. Some (xstrndup (argv ! j))) (filter (\<lambda>j. j \<noteq> k) [i..<length argv]),
      if i \<le> k \<and> k < length argv then p\<lparr>input := Some (argv ! k)\<rparr> else p)"
proof (induction argv k i "(req, p)" arbitrary: req p rule: create_argv_loop.induct)
  case (1 argv stdin i req proc)
  show ?case
  proof (cases "i < length argv")
    case False
    then show ?thesis by (subst create_argv_loop.simps) auto
  next
    case True
    then have upt: "[i..<length argv] = i # [Suc i..<length argv]" by (simp add: upt_conv_Cons)
    show ?thesis
    proof (cases "i = stdin")
      case eq: True
      from upt eq have upt': "[stdin..<length argv] = stdin # [Suc stdin..<length argv]"
        by simp
      from eq True "1.hyps"(1) show ?thesis
        by (subst create_argv_loop.simps) (simp add: upt' filter_neq_upt)
    next
      case neq: False
      show ?thesis
      proof (cases "length (argv ! i) = 0")
        case e: True
        with True neq "1.hyps"(2) show ?thesis
          by (subst create_argv_loop.simps) (auto simp add: upt xstrndup_Nil)
      next
        case ne: False
        with True neq "1.hyps"(3) show ?thesis
          by (subst create_argv_loop.simps) (auto simp add: upt)
      qed
    qed
  qed
qed

lemma argv_strings_built:
  "argv_strings (Some x # map (\<lambda>j. Some (f j)) js @ [None]) = x # map f js"
proof -
  have "takeWhile (\<lambda>x. x \<noteq> None) (map (\<lambda>j. Some (f j)) js @ [None]) = map (\<lambda>j. Some (f j)) js"
    by (subst takeWhile_append2) auto
  then show ?thesis by (simp add: argv_strings_def comp_def)
qed

lemma map_nth_tl: "map (\<lambda>j. xs ! j) [1..<length xs] = tl xs"
  by (rule nth_equalityI) (auto simp: nth_tl)

lemma stdin_index_spec:
  assumes "argv \<noteq> []" and "length argv < 2 ^ 63"
    and "- (2 ^ 63) \<le> stdin_arg cline" and "stdin_arg cline < 2 ^ 63"
    and "i < length argv"
  shows "i = stdin_index cline (length argv) \<longleftrightarrow> int i = spec_stdin_index cline argv"
proof (cases "stdin_arg cline = - 1")
  case True
  from assms(1) obtain a as where "argv = a # as" by (cases argv) auto
  with True show ?thesis by (auto simp: stdin_index_def spec_stdin_index_def)
next
  case False
  show ?thesis
  proof (cases "0 \<le> stdin_arg cline")
    case True
    with assms have "stdin_arg cline mod 2 ^ 64 = stdin_arg cline" by simp
    with True False show ?thesis by (auto simp: stdin_index_def spec_stdin_index_def)
  next
    case neg: False
    have "(stdin_arg cline + 2 ^ 64) mod 2 ^ 64 = stdin_arg cline + 2 ^ 64"
      using assms neg by (intro mod_pos_pos_trivial) auto
    then have m: "stdin_arg cline mod 2 ^ 64 = stdin_arg cline + 2 ^ 64" by simp
    have "int i < 2 ^ 63" using assms by simp
    with assms neg False m show ?thesis
      by (auto simp: stdin_index_def spec_stdin_index_def)
  qed
qed

text \<open>
  Claim C5.  In command mode, for every rule and every non-empty caller vector, the child
  argv starts with the basename of the rule's program (the final path segment after the
  last slash, or the whole path without one); then come, in order, null-terminated copies
  of the caller's arguments after the command, empty ones included, except the one at the
  rule's stdin index (\<open>- 1\<close> resolving to the last index), which is left out and recorded
  as the stdin payload; a \<^verbatim>\<open>NULL\<close> cell ends the array.  The vector has fewer than \<open>2^63\<close>
  entries and \<^verbatim>\<open>stdin_arg\<close> is a \<^verbatim>\<open>long\<close>.
\<close>

theorem create_argv_command_child_argv:
  assumes "argv \<noteq> []" and "length argv < 2 ^ 63"
    and "- (2 ^ 63) \<le> stdin_arg cline" and "stdin_arg cline < 2 ^ 63"
  shows "create_argv_command cline proc argv =
     (Some (spec_basename (program cline)) #
        map (\<lambda>i. Some (xstrndup (argv ! i)))
          (filter (\<lambda>i. int i \<noteq> spec_stdin_index cline argv) [1..<length argv]) @ [None],
      if 1 \<le> spec_stdin_index cline argv \<and> spec_stdin_index cline argv < int (length argv)
      then proc\<lparr>input := Some (argv ! nat (spec_stdin_index cline argv))\<rparr> else proc)"
proof -
  let ?k = "stdin_index cline (length argv)"
  let ?K = "spec_stdin_index cline argv"
  have idx: "\<And>i. i < length argv \<Longrightarrow> i = ?k \<longleftrightarrow> int i = ?K"
    using assms by (rule stdin_index_spec)
  have flt: "filter (\<lambda>j. j \<noteq> ?k) [1..<length argv] = filter (\<lambda>i. int i \<noteq> ?K) [1..<length argv]"
    by (rule filter_cong) (auto simp: idx)
  have inp: "(if 1 \<le> ?k \<and> ?k < length argv then proc\<lparr>input := Some (argv ! ?k)\<rparr> else proc) =
             (if 1 \<le> ?K \<and> ?K < int (length argv)
              then proc\<lparr>input := Some (argv ! nat ?K)\<rparr> else proc)"
  proof (cases "1 \<le> ?K \<and> ?K < int (length argv)")
    case True
    then have "nat ?K < length argv" and "int (nat ?K) = ?K" by auto
    with idx [of "nat ?K"] have k: "nat ?K = ?k" by simp
    with True have "1 \<le> ?k \<and> ?k < length argv" by auto
    with True show ?thesis by (simp only: if_P k)
  next
    case False
    have "\<not> (1 \<le> ?k \<and> ?k < length argv)"
    proof
      assume a: "1 \<le> ?k \<and> ?k < length argv"
      with idx [of ?k] have "int ?k = ?K" by simp
      with a False show False by auto
    qed
    with False show ?thesis by (simp only: if_False)
  qed
  show ?thesis
    unfolding create_argv_command_def Let_def
    by (simp add: create_argv_loop_eq flt inp program_name_spec del: One_nat_def)
qed

theorem create_argv_command_child_argv_witness:
  "[''cat'', ''feed'', ''PAYLOAD''] \<noteq> [] \<and> length [''cat'', ''feed'', ''PAYLOAD''] < 2 ^ 63 \<and>
   - (2 ^ 63) \<le> stdin_arg (rule ''cat'' ''ALL'' ''/bin/cat'' (- 1) None None) \<and>
   stdin_arg (rule ''cat'' ''ALL'' ''/bin/cat'' (- 1) None None) < 2 ^ 63 \<and>
   create_argv_command (rule ''cat'' ''ALL'' ''/bin/cat'' (- 1) None None) empty_process
       [''cat'', ''feed'', ''PAYLOAD''] =
     ([Some ''cat'', Some ''feed'', None], empty_process\<lparr>input := Some ''PAYLOAD''\<rparr>)"
  using create_argv_command_child_argv
    [of "[''cat'', ''feed'', ''PAYLOAD'']" "rule ''cat'' ''ALL'' ''/bin/cat'' (- 1) None None"
        empty_process]
  by (simp add: rule_def spec_basename_def spec_stdin_index_def xstrndup_def upt_rec)

text \<open>
  Claim C7.  For a rule without stdin argument (\<^verbatim>\<open>stdin_arg = 0\<close>) and a caller vector whose
  arguments contain no nul octet, the child argv after \<^verbatim>\<open>argv[0]\<close> is, byte for byte and in
  order, the caller vector after its command token, so that the latter can be read back
  from the former; no stdin payload is recorded.
\<close>

theorem create_argv_command_round_trip:
  assumes "stdin_arg cline = 0" and "\<forall>a \<in> set (tl argv). \<not> has_nul a"
  shows "tl (argv_strings (fst (create_argv_command cline proc argv))) = tl argv \<and>
         snd (create_argv_command cline proc argv) = proc"
proof -
  have k: "stdin_index cline (length argv) = 0" using assms(1) by (simp add: stdin_index_def)
  have flt: "filter (\<lambda>j. j \<noteq> 0) [1..<length argv] = [1..<length argv]"
    by (rule filter_True) auto
  have "map (\<lambda>j. xstrndup (argv ! j)) [1..<length argv] = map (\<lambda>j. argv ! j) [1..<length argv]"
  proof (rule map_cong[OF refl])
    fix j assume "j \<in> set [1..<length argv]"
    then have "argv ! j \<in> set (tl argv)"
      by (cases argv) (auto simp: nth_Cons split: nat.splits)
    with assms(2) show "xstrndup (argv ! j) = argv ! j" by (simp add: xstrndup_id)
  qed
  then have cp: "map (\<lambda>j. xstrndup (argv ! j)) [1..<length argv] = tl argv"
    by (simp only: map_nth_tl)
  have "create_argv_command cline proc argv =
          (Some (program_name (program cline)) #
             map (\<lambda>j. Some (xstrndup (argv ! j))) [1..<length argv] @ [None], proc)"
    unfolding create_argv_command_def Let_def
    by (simp add: create_argv_loop_eq k flt del: One_nat_def)
  then show ?thesis by (simp add: argv_strings_built cp del: One_nat_def)
qed

theorem create_argv_command_round_trip_witness:
  "stdin_arg (rule ''echo'' ''hi'' ''/bin/echo'' 0 None None) = 0 \<and>
   \<not> has_nul ''hi'' \<and> \<not> has_nul [] \<and> \<not> has_nul ''world'' \<and>
   tl (argv_strings (fst (create_argv_command (rule ''echo'' ''hi'' ''/bin/echo'' 0 None None)
        empty_process [''echo'', ''hi'', [], ''world'']))) = [''hi'', [], ''world'']"
proof -
  have h1: "stdin_arg (rule ''echo'' ''hi'' ''/bin/echo'' 0 None None) = 0"
    by (simp add: rule_def)
  have h2: "\<forall>a \<in> set (tl [''echo'', ''hi'', [], ''world'']). \<not> has_nul a"
    by (simp add: has_nul_def)
  from create_argv_command_round_trip [OF h1 h2, of empty_process] h1
  show ?thesis by (simp add: has_nul_def)
qed

lemma child_stdin_no_input:
  "input p = None \<Longrightarrow> child_stdin p sock fd fds 0 = (if 0 \<le> fd then Some Dev_null else None)"
  by (auto simp: child_stdin_def Let_def)

text \<open>
  Claim C8, as amended.  If the rule's \<^verbatim>\<open>stdin_arg\<close> is \<open>- 1\<close> and the caller's vector holds
  only the command token, \<^verbatim>\<open>create_argv_command\<close> records no stdin payload, and the
  child's descriptor 0 is never the socket: it is open on /dev/null whenever
  \<^verbatim>\<open>open("/dev/null")\<close> succeeds, and it is left closed when that call fails.
\<close>

theorem stdin_last_without_arguments:
  assumes "stdin_arg cline = - 1"
  shows "create_argv_command cline empty_process [cmd] =
           ([Some (program_name (program cline)), None], empty_process) \<and>
         input (snd (create_argv_command cline empty_process [cmd])) = None \<and>
         child_stdin (snd (create_argv_command cline empty_process [cmd])) sock fd fds 0 =
           (if 0 \<le> fd then Some Dev_null else None)"
proof -
  have "create_argv_command cline empty_process [cmd] =
           ([Some (program_name (program cline)), None], empty_process)"
    unfolding create_argv_command_def Let_def
    using assms by (simp add: create_argv_loop_eq stdin_index_def)
  moreover have "input empty_process = None" by (simp add: empty_process_def)
  ultimately show ?thesis by (simp add: child_stdin_no_input)
qed

theorem stdin_last_without_arguments_witness:
  "stdin_arg (rule ''cat'' ''ALL'' ''/bin/cat'' (- 1) None None) = - 1 \<and>
   create_argv_command (rule ''cat'' ''ALL'' ''/bin/cat'' (- 1) None None) empty_process [''cat''] =
     ([Some ''cat'', None], empty_process) \<and>
   child_stdin (snd (create_argv_command (rule ''cat'' ''ALL'' ''/bin/cat'' (- 1) None None)
       empty_process [''cat''])) 5 0 (\<lambda>n. Some Inherited) 0 = Some Dev_null"
proof -
  have h: "stdin_arg (rule ''cat'' ''ALL'' ''/bin/cat'' (- 1) None None) = - 1"
    by (simp add: rule_def)
  from stdin_last_without_arguments [OF h, of "''cat''" 5 0 "\<lambda>n. Some Inherited"] h
  show ?thesis by (auto simp: rule_def program_name_def)
qed

text \<open>
  Claim C8 as stated fails when \<^verbatim>\<open>open("/dev/null")\<close> fails.  The code ignores the failure
  on purpose (comment at lines 441 to 446): no payload is recorded, descriptor 0 has been
  closed and stays closed, so the child's standard input is not open on /dev/null.
\<close>

theorem stdin_last_without_arguments_counterexample:
  "stdin_arg (rule ''cat'' ''ALL'' ''/bin/cat'' (- 1) None None) = - 1 \<and>
   input (snd (create_argv_command (rule ''cat'' ''ALL'' ''/bin/cat'' (- 1) None None)
       empty_process [''cat''])) = None \<and>
   child_stdin (snd (create_argv_command (rule ''cat'' ''ALL'' ''/bin/cat'' (- 1) None None)
       empty_process [''cat''])) 5 (- 1) (\<lambda>n. Some Inherited) 0 = None \<and>
   child_stdin (snd (create_argv_command (rule ''cat'' ''ALL'' ''/bin/cat'' (- 1) None None)
       empty_process [''cat''])) 5 (- 1) (\<lambda>n. Some Inherited) 0 \<noteq> Some Dev_null"
  by code_simp

text \<open>
  Claim C10, as amended.  In command mode, if the rule's \<^verbatim>\<open>stdin_arg\<close> is a positive index
  that is at least the number of caller tokens, no argument is recorded as stdin payload,
  every caller argument after the command is passed on in the child argv, and the child's
  descriptor 0 is never the socket: it is open on /dev/null whenever
  \<^verbatim>\<open>open("/dev/null")\<close> succeeds, and it is left closed when that call fails.
\<close>

theorem stdin_index_beyond_vector:
  assumes "argv \<noteq> []" and "int (length argv) \<le> stdin_arg cline" and "stdin_arg cline < 2 ^ 63"
  shows "input (snd (create_argv_command cline empty_process argv)) = None \<and>
         tl (argv_strings (fst (create_argv_command cline empty_process argv))) =
           map xstrndup (tl argv) \<and>
         child_stdin (snd (create_argv_command cline empty_process argv)) sock fd fds 0 =
           (if 0 \<le> fd then Some Dev_null else None)"
proof -
  let ?k = "stdin_index cline (length argv)"
  from assms have "stdin_arg cline mod 2 ^ 64 = stdin_arg cline" by simp
  with assms have k: "length argv \<le> ?k" by (auto simp: stdin_index_def)
  have flt: "filter (\<lambda>j. j \<noteq> ?k) [1..<length argv] = [1..<length argv]"
    using k by (intro filter_True) auto
  have cp: "map (\<lambda>j. xstrndup (argv ! j)) [1..<length argv] = map xstrndup (tl argv)"
    using map_nth_tl [of argv, symmetric] by (simp add: comp_def del: One_nat_def)
  have "create_argv_command cline empty_process argv =
          (Some (program_name (program cline)) #
             map (\<lambda>j. Some (xstrndup (argv ! j))) [1..<length argv] @ [None], empty_process)"
    unfolding create_argv_command_def Let_def
    using k by (simp add: create_argv_loop_eq flt del: One_nat_def)
  moreover have "input empty_process = None" by (simp add: empty_process_def)
  ultimately show ?thesis
    by (simp add: argv_strings_built cp child_stdin_no_input del: One_nat_def)
qed

theorem stdin_index_beyond_vector_witness:
  "[''cmd'', ''sub'', ''arg''] \<noteq> [] \<and>
   int (length [''cmd'', ''sub'', ''arg'']) \<le> stdin_arg (rule ''cmd'' ''ALL'' ''/bin/cmd'' 3 None None) \<and>
   stdin_arg (rule ''cmd'' ''ALL'' ''/bin/cmd'' 3 None None) < 2 ^ 63 \<and>
   input (snd (create_argv_command (rule ''cmd'' ''ALL'' ''/bin/cmd'' 3 None None) empty_process
       [''cmd'', ''sub'', ''arg''])) = None \<and>
   tl (argv_strings (fst (create_argv_command (rule ''cmd'' ''ALL'' ''/bin/cmd'' 3 None None)
       empty_process [''cmd'', ''sub'', ''arg'']))) = [''sub'', ''arg''] \<and>
   child_stdin (snd (create_argv_command (rule ''cmd'' ''ALL'' ''/bin/cmd'' 3 None None)
       empty_process [''cmd'', ''sub'', ''arg''])) 5 0 (\<lambda>n. Some Inherited) 0 = Some Dev_null"
  using stdin_index_beyond_vector
    [of "[''cmd'', ''sub'', ''arg'']" "rule ''cmd'' ''ALL'' ''/bin/cmd'' 3 None None" 5 0
        "\<lambda>n. Some Inherited"]
  by (simp add: rule_def xstrndup_def)

text \<open>
  Claim C10 as stated fails when \<^verbatim>\<open>open("/dev/null")\<close> fails.  The code ignores the
  failure on purpose (comment at lines 441 to 446): no payload is recorded, both arguments
  are passed on, descriptor 0 has been closed and stays closed, so the child's standard
  input is not connected to /dev/null.
\<close>

theorem stdin_index_beyond_vector_counterexample:
  "int (length [''cmd'', ''sub'', ''arg'']) \<le>
     stdin_arg (rule ''cmd'' ''ALL'' ''/bin/cmd'' 3 None None) \<and>
   input (snd (create_argv_command (rule ''cmd'' ''ALL'' ''/bin/cmd'' 3 None None) empty_process
       [''cmd'', ''sub'', ''arg''])) = None \<and>
   argv_strings (fst (create_argv_command (rule ''cmd'' ''ALL'' ''/bin/cmd'' 3 None None)
       empty_process [''cmd'', ''sub'', ''arg''])) = [''cmd'', ''sub'', ''arg''] \<and>
   child_stdin (snd (create_argv_command (rule ''cmd'' ''ALL'' ''/bin/cmd'' 3 None None)
       empty_process [''cmd'', ''sub'', ''arg''])) 5 (- 1) (\<lambda>n. Some Inherited) 0 = None \<and>
   child_stdin (snd (create_argv_command (rule ''cmd'' ''ALL'' ''/bin/cmd'' 3 None None)
       empty_process [''cmd'', ''sub'', ''arg''])) 5 (- 1) (\<lambda>n. Some Inherited) 0 \<noteq>
     Some Dev_null"
  by code_simp

section \<open>Properties of the I/O multiplexer\<close>

text \<open>Under protocol two and later, whenever the loop was not broken, the flag
  \<^verbatim>\<open>saw_output\<close> after a run of the loop tells whether a read callback was called; under
  protocol one no run of the loop changes it.\<close>

lemma run_callback_v2:
  assumes "run_callback cb (w, p) = (w', p')" and "v2_handlers p"
  shows "v2_handlers p' \<and> (saw_output p' \<longleftrightarrow> saw_output p \<or> is_readcb cb)"
  using assms
  by (cases cb)
     (auto simp: v2_handlers_def installed_def handle_output_def set_input_def get_input_def
        handle_io_event_def handle_child_exit_def Let_def
        split: option.splits read_handler.splits if_splits bev.splits)

lemma event_loop_v2:
  assumes "event_loop cbs (w, p) = (w', p')" and "v2_handlers p" and "\<not> got_break p'"
  shows "v2_handlers p' \<and> (saw_output p' \<longleftrightarrow> saw_output p \<or> list_ex is_readcb cbs)"
  using assms
proof (induction cbs arbitrary: w p)
  case Nil
  then show ?case by simp
next
  case (Cons cb cbs)
  obtain w1 p1 where s: "run_callback cb (w, p) = (w1, p1)" by (cases "run_callback cb (w, p)")
  from run_callback_v2 [OF s Cons.prems(2)]
  have h: "v2_handlers p1" "saw_output p1 \<longleftrightarrow> saw_output p \<or> is_readcb cb" by simp_all
  show ?case
  proof (cases "got_break p1")
    case True
    with Cons.prems s show ?thesis by simp
  next
    case False
    with Cons.prems s have "event_loop cbs (w1, p1) = (w', p')" by simp
    from Cons.IH [OF this h(1) Cons.prems(3)] h(2) show ?thesis by auto
  qed
qed

lemma run_callback_v1:
  assumes "run_callback cb (w, p) = (w', p')" and "v1_handlers p"
  shows "v1_handlers p' \<and> saw_output p' = saw_output p"
  using assms
  by (cases cb)
     (auto simp: v1_handlers_def installed_def handle_output_full_def handle_output_discard_def
        set_input_def get_input_def handle_io_event_def handle_child_exit_def Let_def
        split: option.splits read_handler.splits if_splits bev.splits)

lemma event_loop_v1:
  assumes "event_loop cbs (w, p) = (w', p')" and "v1_handlers p"
  shows "v1_handlers p' \<and> saw_output p' = saw_output p"
  using assms
proof (induction cbs arbitrary: w p)
  case Nil
  then show ?case by simp
next
  case (Cons cb cbs)
  obtain w1 p1 where s: "run_callback cb (w, p) = (w1, p1)" by (cases "run_callback cb (w, p)")
  from run_callback_v1 [OF s Cons.prems(2)]
  have h: "v1_handlers p1" "saw_output p1 = saw_output p" by simp_all
  show ?case
  proof (cases "got_break p1")
    case True
    with Cons.prems s h show ?thesis by simp
  next
    case False
    with Cons.prems s have "event_loop cbs (w1, p1) = (w', p')" by simp
    from Cons.IH [OF this h(1)] h(2) show ?thesis by simp
  qed
qed

lemma drain_protocol_two_step:
  assumes "v2_handlers p"
  shows "drain (pass # rest) (w, p) =
     (if list_ex is_readcb pass \<and>
         \<not> got_break (snd (event_loop pass
              (w\<lparr>nonblock_passes := Suc (nonblock_passes w)\<rparr>, p\<lparr>saw_output := False\<rparr>)))
      then drain rest (event_loop pass
              (w\<lparr>nonblock_passes := Suc (nonblock_passes w)\<rparr>, p\<lparr>saw_output := False\<rparr>))
      else event_loop pass
              (w\<lparr>nonblock_passes := Suc (nonblock_passes w)\<rparr>, p\<lparr>saw_output := False\<rparr>))"
proof -
  let ?st = "(w\<lparr>nonblock_passes := Suc (nonblock_passes w)\<rparr>, p\<lparr>saw_output := False\<rparr>)"
  obtain w1 p1 where e: "event_loop pass ?st = (w1, p1)" by (cases "event_loop pass ?st")
  have v: "v2_handlers (p\<lparr>saw_output := False\<rparr>)" using assms by (simp add: v2_handlers_def)
  show ?thesis
  proof (cases "got_break p1")
    case True
    with e show ?thesis by simp
  next
    case False
    from event_loop_v2 [OF e v False] have "saw_output p1 \<longleftrightarrow> list_ex is_readcb pass" by simp
    with e False show ?thesis by simp
  qed
qed

lemma drain_protocol_one_single_pass:
  assumes "v1_handlers p"
  shows "drain (pass # rest) (w, p) =
     event_loop pass (w\<lparr>nonblock_passes := Suc (nonblock_passes w)\<rparr>, p\<lparr>saw_output := False\<rparr>)"
proof -
  let ?st = "(w\<lparr>nonblock_passes := Suc (nonblock_passes w)\<rparr>, p\<lparr>saw_output := False\<rparr>)"
  obtain w1 p1 where e: "event_loop pass ?st = (w1, p1)" by (cases "event_loop pass ?st")
  have v: "v1_handlers (p\<lparr>saw_output := False\<rparr>)" using assms by (simp add: v1_handlers_def)
  from event_loop_v1 [OF e v] have "\<not> saw_output p1" by simp
  with e show ?thesis by simp
qed

lemma run_callback_passes:
  "run_callback cb (w, p) = (w', p') \<Longrightarrow> nonblock_passes w' = nonblock_passes w"
  by (cases cb)
     (auto simp: handle_output_def handle_output_full_def handle_output_discard_def
        handle_io_event_def handle_child_exit_def server_send_error_def Let_def
        split: option.splits read_handler.splits if_splits)

lemma event_loop_passes:
  "event_loop cbs (w, p) = (w', p') \<Longrightarrow> nonblock_passes w' = nonblock_passes w"
proof (induction cbs arbitrary: w p)
  case Nil
  then show ?case by simp
next
  case (Cons cb cbs)
  obtain w1 p1 where s: "run_callback cb (w, p) = (w1, p1)" by (cases "run_callback cb (w, p)")
  from run_callback_passes [OF s] have h: "nonblock_passes w1 = nonblock_passes w" .
  show ?case
  proof (cases "got_break p1")
    case True
    with Cons.prems s h show ?thesis by simp
  next
    case False
    with Cons.prems s have "event_loop cbs (w1, p1) = (w', p')" by simp
    from Cons.IH [OF this] h show ?thesis by simp
  qed
qed

lemma drain_protocol_one_passes:
  assumes "v1_handlers p"
  shows "nonblock_passes (fst (drain passes (w, p))) = Suc (nonblock_passes w)"
proof (cases passes)
  case Nil
  then show ?thesis by simp
next
  case (Cons pass rest)
  let ?st = "(w\<lparr>nonblock_passes := Suc (nonblock_passes w)\<rparr>, p\<lparr>saw_output := False\<rparr>)"
  obtain w1 p1 where e: "event_loop pass ?st = (w1, p1)" by (cases "event_loop pass ?st")
  from event_loop_passes [OF e] have "nonblock_passes w1 = Suc (nonblock_passes w)" by simp
  moreover have "drain passes (w, p) = (w1, p1)"
    using Cons e drain_protocol_one_single_pass [OF assms, of pass rest w]
    by (simp del: drain.simps)
  ultimately show ?thesis by simp
qed

lemma server_process_output_protocol_one_passes:
  assumes "protocol c = 1" and "err_readcb p = None"
  shows "nonblock_passes (fst (snd (server_process_output os c (w, p)))) \<le>
           Suc (nonblock_passes w)"
proof -
  let ?p1 = "setup_bufferevents c p"
  obtain w1 p1 where s: "event_loop (dispatch_cbs os) (w, ?p1) = (w1, p1)"
    by (cases "event_loop (dispatch_cbs os) (w, ?p1)")
  from event_loop_passes [OF s] have n: "nonblock_passes w1 = nonblock_passes w" .
  have "v1_handlers ?p1"
    using assms by (simp add: v1_handlers_def setup_bufferevents_def Let_def)
  from event_loop_v1 [OF s this] have v: "v1_handlers p1" by simp
  show ?thesis
  proof (cases "got_break p1")
    case True
    with s n assms(1) show ?thesis by (simp add: server_process_output_def Let_def)
  next
    case False
    obtain w2 p2 where d: "drain (nonblock_cbs os) (w1, p1) = (w2, p2)"
      by (cases "drain (nonblock_cbs os) (w1, p1)")
    from drain_protocol_one_passes [OF v, of "nonblock_cbs os" w1] d n
    have "nonblock_passes w2 = Suc (nonblock_passes w)" by simp
    with False s d assms(1) show ?thesis by (simp add: server_process_output_def Let_def)
  qed
qed

text \<open>Once \<^verbatim>\<open>handle_output_full\<close> has run, the bufferevent has no event callback: an
  error on the stream then sends nothing and the buffered output is delivered.  Before that
  the same error goes to \<^verbatim>\<open>handle_io_event\<close>.\<close>

lemma event_callback_removed_by_handle_output_full:
  "sent (server_run_command
     (always (quiet_os\<lparr>dispatch_cbs := [Readcb Inout ''abc'' True,
        Eventcb Inout False True Other_errno, Sigchld (Some (Exited 0))]\<rparr>))
     permit_all client_v1 [rule ''cmd'' ''ALL'' ''/bin/cmd'' 0 None None] [''cmd'', ''x'']
     empty_world) = [V1_send_output (Some ''abc'') 0] \<and>
   sent (server_run_command
     (always (quiet_os\<lparr>dispatch_cbs := [Buffered Inout ''abc'',
        Eventcb Inout False True Other_errno, Sigchld (Some (Exited 0))]\<rparr>))
     permit_all client_v1 [rule ''cmd'' ''ALL'' ''/bin/cmd'' 0 None None] [''cmd'', ''x'']
     empty_world) = [Send_error ERROR_INTERNAL]"
  by code_simp

text \<open>
  Claim C3 under protocol one.  The child has exited; the first non-blocking pass reads
  \<^verbatim>\<open>abc\<close> into the bufferevent and more output is pending for a second pass.  No
  callback of protocol one sets \<^verbatim>\<open>saw_output\<close>, so the drain stops after one pass and the
  buffer returned holds \<^verbatim>\<open>abc\<close> only.  The same holds when the pass calls the read
  callback of protocol one.  Under protocol two the same activity gives three passes, the
  last of them without output, and both chunks are sent.
\<close>

theorem protocol_one_drain_single_pass:
  "nonblock_passes (fst (snd (server_process_output
      (quiet_os\<lparr>nonblock_cbs := [[Buffered Inout ''abc''], [Buffered Inout ''def'']]\<rparr>)
      client_v1 (empty_world, empty_process)))) = 1 \<and>
   output_buf (snd (snd (server_process_output
      (quiet_os\<lparr>nonblock_cbs := [[Buffered Inout ''abc''], [Buffered Inout ''def'']]\<rparr>)
      client_v1 (empty_world, empty_process)))) = Some ''abc'' \<and>
   fst (server_process_output
      (quiet_os\<lparr>nonblock_cbs := [[Buffered Inout ''abc''], [Buffered Inout ''def'']]\<rparr>)
      client_v1 (empty_world, empty_process)) = True \<and>
   nonblock_passes (fst (snd (server_process_output
      (quiet_os\<lparr>nonblock_cbs := [[Readcb Inout ''abc'' True], [Readcb Inout ''def'' True]]\<rparr>)
      client_v1 (empty_world, empty_process)))) = 1 \<and>
   nonblock_passes (fst (snd (server_process_output
      (quiet_os\<lparr>nonblock_cbs := [[Readcb Inout ''abc'' True], [Readcb Inout ''def'' True]]\<rparr>)
      client_v2 (empty_world, empty_process)))) = 3 \<and>
   sent (fst (snd (server_process_output
      (quiet_os\<lparr>nonblock_cbs := [[Readcb Inout ''abc'' True], [Readcb Inout ''def'' True]]\<rparr>)
      client_v2 (empty_world, empty_process)))) =
     [V2_send_output 1 ''abc'', V2_send_output 1 ''def'']"
  by code_simp

section \<open>Properties of the command dispatcher\<close>

lemma nul_check_iff:
  "nul_check cline h argv i \<longleftrightarrow>
     (\<exists>k. i \<le> k \<and> k < length argv \<and> has_nul (argv ! k) \<and>
        \<not> (cline \<noteq> None \<and> ((\<not> h \<and> int k = stdin_arg (the cline)) \<or>
              (Suc k = length argv \<and> stdin_arg (the cline) = - 1))))"
proof (induction cline h argv i rule: nul_check.induct)
  case (1 cline is_help argv i)
  let ?ex = "\<lambda>k. cline \<noteq> None \<and> ((\<not> is_help \<and> int k = stdin_arg (the cline)) \<or>
              (Suc k = length argv \<and> stdin_arg (the cline) = - 1))"
  let ?R = "\<lambda>i. \<exists>k. i \<le> k \<and> k < length argv \<and> has_nul (argv ! k) \<and> \<not> ?ex k"
  show ?case
  proof (cases "i < length argv")
    case False
    then show ?thesis by (subst nul_check.simps) auto
  next
    case True
    have step: "?R i \<longleftrightarrow> (has_nul (argv ! i) \<and> \<not> ?ex i) \<or> ?R (Suc i)"
    proof
      assume "?R i"
      then obtain k where k: "i \<le> k" "k < length argv" "has_nul (argv ! k)" "\<not> ?ex k" by blast
      show "(has_nul (argv ! i) \<and> \<not> ?ex i) \<or> ?R (Suc i)"
      proof (cases "k = i")
        case True
        with k show ?thesis by blast
      next
        case False
        with k have "Suc i \<le> k" by simp
        with k show ?thesis by blast
      qed
    next
      assume "(has_nul (argv ! i) \<and> \<not> ?ex i) \<or> ?R (Suc i)"
      then show "?R i"
      proof
        assume "has_nul (argv ! i) \<and> \<not> ?ex i"
        with True show ?thesis by blast
      next
        assume "?R (Suc i)"
        then obtain k where "Suc i \<le> k" "k < length argv" "has_nul (argv ! k)" "\<not> ?ex k" by blast
        then have "i \<le> k \<and> k < length argv \<and> has_nul (argv ! k) \<and> \<not> ?ex k" by simp
        then show ?thesis by blast
      qed
    qed
    consider (a) "cline \<noteq> None \<and> is_help = False \<and> int i = stdin_arg (the cline)"
      | (b) "\<not> (cline \<noteq> None \<and> is_help = False \<and> int i = stdin_arg (the cline))"
            "cline \<noteq> None \<and> Suc i = length argv \<and> stdin_arg (the cline) = - 1"
      | (c) "\<not> (cline \<noteq> None \<and> is_help = False \<and> int i = stdin_arg (the cline))"
            "\<not> (cline \<noteq> None \<and> Suc i = length argv \<and> stdin_arg (the cline) = - 1)"
            "has_nul (argv ! i)"
      | (d) "\<not> (cline \<noteq> None \<and> is_help = False \<and> int i = stdin_arg (the cline))"
            "\<not> (cline \<noteq> None \<and> Suc i = length argv \<and> stdin_arg (the cline) = - 1)"
            "\<not> has_nul (argv ! i)"
      by blast
    then show ?thesis
    proof cases
      case a
      have "nul_check cline is_help argv i = nul_check cline is_help argv (Suc i)"
        using True a by (subst nul_check.simps) simp
      also have "\<dots> = ?R (Suc i)" using "1.IH"(1) True a by simp
      also have "\<dots> = ?R i" using step a by blast
      finally show ?thesis .
    next
      case b
      have "nul_check cline is_help argv i = nul_check cline is_help argv (Suc i)"
        using True b by (subst nul_check.simps) auto
      also have "\<dots> = ?R (Suc i)" using "1.IH"(2) True b by simp
      also have "\<dots> = ?R i" using step b by blast
      finally show ?thesis .
    next
      case c
      have "nul_check cline is_help argv i" using True c by (subst nul_check.simps) auto
      moreover have "?R i" using step c by blast
      ultimately show ?thesis by simp
    next
      case d
      have "nul_check cline is_help argv i = nul_check cline is_help argv (Suc i)"
        using True d by (subst nul_check.simps) auto
      also have "\<dots> = ?R (Suc i)" using "1.IH"(3) True d by simp
      also have "\<dots> = ?R i" using step d by blast
      finally show ?thesis .
    qed
  qed
qed

lemma head_guard_iff:
  "argv \<noteq> [] \<Longrightarrow>
   list_ex has_nul (take 2 argv) \<longleftrightarrow> has_nul (argv ! 0) \<or> (1 < length argv \<and> has_nul (argv ! 1))"
proof (cases argv)
  case Nil
  assume "argv \<noteq> []"
  with Nil show ?thesis by simp
next
  case (Cons a as)
  then show ?thesis by (cases as) (auto simp: numeral_2_eq_2)
qed

lemma server_run_command_matched:
  assumes "argv \<noteq> []" and "\<not> list_ex has_nul (take 2 argv)" and "1 < length argv"
  shows "server_run_command os permit c config argv w =
     run_matched os permit c argv (xstrndup (argv ! 0)) (Some (xstrndup (argv ! 1)))
       (if fst (matched_rule config argv) \<and> 2 < length argv
        then Some (xstrndup (argv ! 2)) else None)
       (fst (matched_rule config argv)) (snd (matched_rule config argv))
       (if fst (matched_rule config argv) \<and> 3 < length argv
        then server_send_error ERROR_TOOMANY_ARGS w else w)"
  using assms by (auto simp: server_run_command_def matched_rule_def Let_def)

text \<open>No callback, and so no call of \<^verbatim>\<open>server_exec\<close>, sends ERROR_BAD_COMMAND.\<close>

lemma run_callback_frames:
  "run_callback cb (w, p) = (w', p') \<Longrightarrow>
     execs w' = execs w \<and>
     (\<exists>fs. sent w' = sent w @ fs \<and> Send_error ERROR_BAD_COMMAND \<notin> set fs)"
  by (cases cb)
     (auto simp: handle_output_def handle_output_full_def handle_output_discard_def
        handle_io_event_def handle_child_exit_def server_send_error_def Let_def
        split: option.splits read_handler.splits if_splits)

lemma event_loop_frames:
  "event_loop cbs (w, p) = (w', p') \<Longrightarrow>
     execs w' = execs w \<and>
     (\<exists>fs. sent w' = sent w @ fs \<and> Send_error ERROR_BAD_COMMAND \<notin> set fs)"
proof (induction cbs arbitrary: w p)
  case Nil
  then show ?case by simp
next
  case (Cons cb cbs)
  obtain w1 p1 where s: "run_callback cb (w, p) = (w1, p1)" by (cases "run_callback cb (w, p)")
  from run_callback_frames [OF s] obtain fs1 where
    f1: "execs w1 = execs w" "sent w1 = sent w @ fs1" "Send_error ERROR_BAD_COMMAND \<notin> set fs1"
    by blast
  show ?case
  proof (cases "got_break p1")
    case True
    with Cons.prems s have "w' = w1" by simp
    with f1 show ?thesis by blast
  next
    case False
    with Cons.prems s have "event_loop cbs (w1, p1) = (w', p')" by simp
    from Cons.IH [OF this] obtain fs2 where
      "execs w' = execs w1" "sent w' = sent w1 @ fs2" "Send_error ERROR_BAD_COMMAND \<notin> set fs2"
      by blast
    with f1 have "execs w' = execs w \<and> sent w' = sent w @ (fs1 @ fs2) \<and>
      Send_error ERROR_BAD_COMMAND \<notin> set (fs1 @ fs2)" by simp
    then show ?thesis by blast
  qed
qed

lemma drain_frames:
  "drain passes (w, p) = (w', p') \<Longrightarrow>
     execs w' = execs w \<and>
     (\<exists>fs. sent w' = sent w @ fs \<and> Send_error ERROR_BAD_COMMAND \<notin> set fs)"
proof (induction passes arbitrary: w p)
  case Nil
  then show ?case by auto
next
  case (Cons pass rest)
  let ?w0 = "w\<lparr>nonblock_passes := Suc (nonblock_passes w)\<rparr>"
  let ?p0 = "p\<lparr>saw_output := False\<rparr>"
  obtain w1 p1 where s: "event_loop pass (?w0, ?p0) = (w1, p1)"
    by (cases "event_loop pass (?w0, ?p0)")
  from event_loop_frames [OF s] obtain fs1 where
    f1: "execs w1 = execs w" "sent w1 = sent w @ fs1" "Send_error ERROR_BAD_COMMAND \<notin> set fs1"
    by auto
  show ?case
  proof (cases "saw_output p1 \<and> \<not> got_break p1")
    case False
    with Cons.prems s have "w' = w1" by auto
    with f1 show ?thesis by blast
  next
    case True
    with Cons.prems s have "drain rest (w1, p1) = (w', p')" by simp
    from Cons.IH [OF this] obtain fs2 where
      "execs w' = execs w1" "sent w' = sent w1 @ fs2" "Send_error ERROR_BAD_COMMAND \<notin> set fs2"
      by blast
    with f1 have "execs w' = execs w \<and> sent w' = sent w @ (fs1 @ fs2) \<and>
      Send_error ERROR_BAD_COMMAND \<notin> set (fs1 @ fs2)" by simp
    then show ?thesis by blast
  qed
qed

lemma server_process_output_frames:
  assumes "server_process_output os c (w, p) = (ok, w', p')"
  shows "execs w' = execs w \<and>
     (\<exists>fs. sent w' = sent w @ fs \<and> Send_error ERROR_BAD_COMMAND \<notin> set fs)"
proof -
  let ?p1 = "setup_bufferevents c p"
  obtain w1 p1 where s: "event_loop (dispatch_cbs os) (w, ?p1) = (w1, p1)"
    by (cases "event_loop (dispatch_cbs os) (w, ?p1)")
  from event_loop_frames [OF s] obtain fs1 where
    f1: "execs w1 = execs w" "sent w1 = sent w @ fs1" "Send_error ERROR_BAD_COMMAND \<notin> set fs1"
    by blast
  show ?thesis
  proof (cases "got_break p1")
    case True
    with assms s have "w' = w1" by (simp add: server_process_output_def Let_def)
    with f1 show ?thesis by blast
  next
    case False
    obtain w2 p2 where d: "drain (nonblock_cbs os) (w1, p1) = (w2, p2)"
      by (cases "drain (nonblock_cbs os) (w1, p1)")
    from drain_frames [OF d] obtain fs2 where
      f2: "execs w2 = execs w1" "sent w2 = sent w1 @ fs2" "Send_error ERROR_BAD_COMMAND \<notin> set fs2"
      by blast
    from False assms s d have "w' = w2" by (simp add: server_process_output_def Let_def)
    with f1 f2 have "execs w' = execs w \<and> sent w' = sent w @ (fs1 @ fs2) \<and>
      Send_error ERROR_BAD_COMMAND \<notin> set (fs1 @ fs2)" by simp
    then show ?thesis by blast
  qed
qed

lemma server_exec_frames:
  assumes "server_exec os c cmd req_argv cline (w, p) = (ok, w', p')"
  shows "\<exists>fs. sent w' = sent w @ fs \<and> Send_error ERROR_BAD_COMMAND \<notin> set fs"
proof (cases "\<not> socketpair_stdinout_ok os \<or> (protocol c > 1 \<and> \<not> socketpair_stderr_ok os) \<or>
    \<not> fork_ok os")
  case True
  with assms have "sent w' = sent w @ [Send_error ERROR_INTERNAL]"
    by (auto simp: server_exec_def Let_def server_send_error_def split: if_splits)
  then show ?thesis by simp
next
  case False
  obtain ok1 w1 p1 where s: "server_process_output os c (w, p) = (ok1, w1, p1)"
    by (cases "server_process_output os c (w, p)")
  from server_process_output_frames [OF s] obtain fs where
    f: "sent w1 = sent w @ fs" "Send_error ERROR_BAD_COMMAND \<notin> set fs" by blast
  from False assms s have "sent w' = sent w1"
    by (auto simp: server_exec_def Let_def split: wstatus.splits if_splits)
  with f show ?thesis by simp
qed

lemma run_matched_rejects:
  assumes "nul_check cline h argv 1"
  shows "run_matched os permit c argv cmd sub helpsub h cline w =
           server_send_error ERROR_BAD_COMMAND w"
  using assms by (simp add: run_matched_def)

lemma run_matched_accepts:
  assumes "\<not> nul_check cline h argv 1"
  shows "\<exists>fs. sent (run_matched os permit c argv cmd sub helpsub h cline w) = sent w @ fs \<and>
           Send_error ERROR_BAD_COMMAND \<notin> set fs"
proof (cases cline)
  case None
  with assms show ?thesis by (simp add: run_matched_def server_send_error_def)
next
  case (Some r)
  show ?thesis
  proof (cases "\<not> permit r (user c) \<or> (h \<and> help_cmd r = None)")
    case True
    with assms Some show ?thesis by (auto simp: run_matched_def server_send_error_def)
  next
    case False
    let ?sub = "if h then help_cmd r else sub"
    let ?ap = "if h then (create_argv_help (program r) (the ?sub) helpsub, empty_process)
               else create_argv_command r empty_process argv"
    obtain ok w1 p1 where
      e: "server_exec (os (length (execs w))) c cmd (fst ?ap) r (w, snd ?ap) = (ok, w1, p1)"
      by (cases "server_exec (os (length (execs w))) c cmd (fst ?ap) r (w, snd ?ap)")
    from server_exec_frames [OF e] obtain fs where
      f: "sent w1 = sent w @ fs" "Send_error ERROR_BAD_COMMAND \<notin> set fs" by blast
    have r: "run_matched os permit c argv cmd sub helpsub h cline w =
      (if ok then
         (if protocol c = 1
          then w1\<lparr>sent := sent w1 @ [V1_send_output (output_buf p1) (status p1)]\<rparr>
          else w1\<lparr>sent := sent w1 @ [V2_send_status (status p1)]\<rparr>)
       else w1)"
      using assms Some False e
      by (auto simp: run_matched_def Let_def split_beta)
    show ?thesis
    proof (cases ok)
      case True
      with r f have "sent (run_matched os permit c argv cmd sub helpsub h cline w) =
        sent w @ (fs @ [if protocol c = 1 then V1_send_output (output_buf p1) (status p1)
                        else V2_send_status (status p1)])" by simp
      moreover have "Send_error ERROR_BAD_COMMAND \<notin>
        set (fs @ [if protocol c = 1 then V1_send_output (output_buf p1) (status p1)
                        else V2_send_status (status p1)])" using f by simp
      ultimately show ?thesis by blast
    next
      case False
      with r f show ?thesis by simp
    qed
  qed
qed

lemma matched_rule_help_length:
  "fst (matched_rule config argv) \<Longrightarrow> 1 < length argv"
  by (auto simp: matched_rule_def Let_def split: if_splits)

text \<open>
  Claim C6.  \<^verbatim>\<open>server_run_command\<close> replies ERROR_BAD_COMMAND, as the last frame of the
  invocation and without any call of \<^verbatim>\<open>server_exec\<close> (so without forking), whenever the
  caller's vector is empty, or the command or the subcommand contains a nul octet, or a
  later argument contains one and is neither at the matched rule's stdin index nor the last
  argument of a rule whose \<^verbatim>\<open>stdin_arg\<close> is \<open>- 1\<close>.  The only frame that can precede the reply
  is the ERROR_TOOMANY_ARGS of a help request with more than three tokens.
\<close>

theorem server_run_command_bad_command:
  assumes "argv = [] \<or> has_nul (argv ! 0) \<or> (1 < length argv \<and> has_nul (argv ! 1)) \<or>
     (\<exists>i. 2 \<le> i \<and> i < length argv \<and> has_nul (argv ! i) \<and>
        (case snd (matched_rule config argv) of
           None \<Rightarrow> True
         | Some r \<Rightarrow> int i \<noteq> stdin_arg r \<and> \<not> (Suc i = length argv \<and> stdin_arg r = - 1)))"
  shows "(sent (server_run_command os permit c config argv empty_world) =
            [Send_error ERROR_BAD_COMMAND] \<or>
          sent (server_run_command os permit c config argv empty_world) =
            [Send_error ERROR_TOOMANY_ARGS, Send_error ERROR_BAD_COMMAND]) \<and>
         execs (server_run_command os permit c config argv empty_world) = []"
proof (cases "argv = [] \<or> list_ex has_nul (take 2 argv)")
  case True
  then show ?thesis
    by (auto simp: server_run_command_def server_send_error_def empty_world_def)
next
  case False
  then have ne: "argv \<noteq> []" and head: "\<not> list_ex has_nul (take 2 argv)" by simp_all
  from head ne have "\<not> has_nul (argv ! 0)" "\<not> (1 < length argv \<and> has_nul (argv ! 1))"
    by (simp_all add: head_guard_iff)
  with assms ne obtain i where i: "2 \<le> i" "i < length argv" "has_nul (argv ! i)"
    and ex: "case snd (matched_rule config argv) of
           None \<Rightarrow> True
         | Some r \<Rightarrow> int i \<noteq> stdin_arg r \<and> \<not> (Suc i = length argv \<and> stdin_arg r = - 1)"
    by blast
  let ?h = "fst (matched_rule config argv)"
  let ?cl = "snd (matched_rule config argv)"
  let ?w = "if ?h \<and> 3 < length argv
            then server_send_error ERROR_TOOMANY_ARGS empty_world else empty_world"
  from i have len: "1 < length argv" by simp
  have "\<not> (?cl \<noteq> None \<and> ((\<not> ?h \<and> int i = stdin_arg (the ?cl)) \<or>
              (Suc i = length argv \<and> stdin_arg (the ?cl) = - 1)))"
    using ex by (cases ?cl) auto
  with i have "nul_check ?cl ?h argv 1"
    by (subst nul_check_iff) (intro exI[of _ i], simp)
  then have "server_run_command os permit c config argv empty_world =
               server_send_error ERROR_BAD_COMMAND ?w"
    by (simp only: server_run_command_matched [OF ne head len] run_matched_rejects)
  then show ?thesis by (simp add: server_send_error_def empty_world_def)
qed

theorem server_run_command_bad_command_witness:
  "has_nul [CHR ''b'', CHR 0x00] \<and>
   (sent (server_run_command (always quiet_os) permit_all client_v2
      [rule ''cmd'' ''ALL'' ''/bin/cmd'' 2 None None]
      [''cmd'', ''sub'', ''a'', [CHR ''b'', CHR 0x00]] empty_world) =
        [Send_error ERROR_BAD_COMMAND] \<or>
    sent (server_run_command (always quiet_os) permit_all client_v2
      [rule ''cmd'' ''ALL'' ''/bin/cmd'' 2 None None]
      [''cmd'', ''sub'', ''a'', [CHR ''b'', CHR 0x00]] empty_world) =
        [Send_error ERROR_TOOMANY_ARGS, Send_error ERROR_BAD_COMMAND]) \<and>
   execs (server_run_command (always quiet_os) permit_all client_v2
      [rule ''cmd'' ''ALL'' ''/bin/cmd'' 2 None None]
      [''cmd'', ''sub'', ''a'', [CHR ''b'', CHR 0x00]] empty_world) = []"
proof -
  let ?cfg = "[rule ''cmd'' ''ALL'' ''/bin/cmd'' 2 None None]"
  let ?argv = "[''cmd'', ''sub'', ''a'', [CHR ''b'', CHR 0x00]]"
  have n: "has_nul [CHR ''b'', CHR 0x00]" by (simp add: has_nul_def)
  have m: "snd (matched_rule ?cfg ?argv) = Some (rule ''cmd'' ''ALL'' ''/bin/cmd'' 2 None None)"
    by (simp add: matched_rule_def xstrndup_def line_matches_def rule_def Let_def)
  have "2 \<le> (3::nat) \<and> 3 < length ?argv \<and> has_nul (?argv ! 3) \<and>
        (case snd (matched_rule ?cfg ?argv) of
           None \<Rightarrow> True
         | Some r \<Rightarrow> int 3 \<noteq> stdin_arg r \<and> \<not> (Suc 3 = length ?argv \<and> stdin_arg r = - 1))"
    using n by (simp add: m) (simp add: rule_def)
  then have hyp: "?argv = [] \<or> has_nul (?argv ! 0) \<or> (1 < length ?argv \<and> has_nul (?argv ! 1)) \<or>
     (\<exists>i. 2 \<le> i \<and> i < length ?argv \<and> has_nul (?argv ! i) \<and>
        (case snd (matched_rule ?cfg ?argv) of
           None \<Rightarrow> True
         | Some r \<Rightarrow> int i \<noteq> stdin_arg r \<and> \<not> (Suc i = length ?argv \<and> stdin_arg r = - 1)))"
    by blast
  from server_run_command_bad_command [OF hyp] n show ?thesis by blast
qed

text \<open>
  Claim C9.  In a help request (the flag \<^verbatim>\<open>help\<close> is set and a rule is matched for the
  command asked about), the tail guard does not exempt the argument at the rule's stdin
  index: the request is rejected with ERROR_BAD_COMMAND exactly when some argument after
  the command contains a nul octet and is not the last argument of a rule whose
  \<^verbatim>\<open>stdin_arg\<close> is \<open>- 1\<close>; in particular an argument with a nul octet at the stdin index is
  rejected, and nothing is executed.
\<close>

theorem help_request_nul_guard:
  assumes "argv \<noteq> []" and "\<not> list_ex has_nul (take 2 argv)"
    and "matched_rule config argv = (True, Some r)"
  shows "(Send_error ERROR_BAD_COMMAND \<in>
            set (sent (server_run_command os permit c config argv empty_world)) \<longleftrightarrow>
          (\<exists>i. 1 \<le> i \<and> i < length argv \<and> has_nul (argv ! i) \<and>
               \<not> (Suc i = length argv \<and> stdin_arg r = - 1))) \<and>
         (\<forall>i. 1 \<le> i \<and> i < length argv \<and> int i = stdin_arg r \<and> has_nul (argv ! i) \<longrightarrow>
            last (sent (server_run_command os permit c config argv empty_world)) =
              Send_error ERROR_BAD_COMMAND \<and>
            execs (server_run_command os permit c config argv empty_world) = [])"
proof -
  let ?w = "if 3 < length argv
            then server_send_error ERROR_TOOMANY_ARGS empty_world else empty_world"
  let ?hs = "if 2 < length argv then Some (xstrndup (argv ! 2)) else None"
  let ?run = "server_run_command os permit c config argv empty_world"
  let ?R = "\<exists>i. 1 \<le> i \<and> i < length argv \<and> has_nul (argv ! i) \<and>
               \<not> (Suc i = length argv \<and> stdin_arg r = - 1)"
  from assms(3) have h: "fst (matched_rule config argv)"
    and cl: "snd (matched_rule config argv) = Some r" by simp_all
  from h have len: "1 < length argv" by (rule matched_rule_help_length)
  have run: "?run = run_matched os permit c argv (xstrndup (argv ! 0))
      (Some (xstrndup (argv ! 1))) ?hs True (Some r) ?w"
    using server_run_command_matched [OF assms(1,2) len, of os permit c config empty_world] h cl
    by simp
  have guard: "nul_check (Some r) True argv 1 \<longleftrightarrow> ?R"
    by (subst nul_check_iff) simp
  have w: "sent ?w = [] \<or> sent ?w = [Send_error ERROR_TOOMANY_ARGS]" "execs ?w = []"
    by (simp_all add: server_send_error_def empty_world_def)
  have rej: "?R \<Longrightarrow> Send_error ERROR_BAD_COMMAND \<in> set (sent ?run) \<and>
      last (sent ?run) = Send_error ERROR_BAD_COMMAND \<and> execs ?run = []"
  proof -
    assume ?R
    with guard have "?run = server_send_error ERROR_BAD_COMMAND ?w"
      by (simp only: run run_matched_rejects)
    with w show ?thesis by (auto simp: server_send_error_def)
  qed
  have acc: "\<not> ?R \<Longrightarrow> Send_error ERROR_BAD_COMMAND \<notin> set (sent ?run)"
  proof -
    assume "\<not> ?R"
    with guard have "\<not> nul_check (Some r) True argv 1" by simp
    from run_matched_accepts [OF this, of os permit c "xstrndup (argv ! 0)"
        "Some (xstrndup (argv ! 1))" ?hs ?w]
    obtain fs where "sent ?run = sent ?w @ fs" "Send_error ERROR_BAD_COMMAND \<notin> set fs"
      unfolding run by blast
    with w show ?thesis by auto
  qed
  have first: "Send_error ERROR_BAD_COMMAND \<in> set (sent ?run) \<longleftrightarrow> ?R"
    using rej acc by blast
  have second: "\<forall>i. 1 \<le> i \<and> i < length argv \<and> int i = stdin_arg r \<and> has_nul (argv ! i) \<longrightarrow>
            last (sent ?run) = Send_error ERROR_BAD_COMMAND \<and> execs ?run = []"
  proof (intro allI impI)
    fix i assume a: "1 \<le> i \<and> i < length argv \<and> int i = stdin_arg r \<and> has_nul (argv ! i)"
    then have "stdin_arg r \<noteq> - 1" by auto
    with a have ?R by blast
    with rej show "last (sent ?run) = Send_error ERROR_BAD_COMMAND \<and> execs ?run = []" by blast
  qed
  from first second show ?thesis by blast
qed

theorem help_request_nul_guard_witness:
  "matched_rule [rule ''cmd'' ''ALL'' ''/bin/cmd'' 2 None (Some ''usage'')]
     [''help'', ''cmd'', [CHR ''a'', CHR 0x00]] =
     (True, Some (rule ''cmd'' ''ALL'' ''/bin/cmd'' 2 None (Some ''usage''))) \<and>
   has_nul [CHR ''a'', CHR 0x00] \<and>
   Send_error ERROR_BAD_COMMAND \<in> set (sent (server_run_command (always quiet_os) permit_all
      client_v2 [rule ''cmd'' ''ALL'' ''/bin/cmd'' 2 None (Some ''usage'')]
      [''help'', ''cmd'', [CHR ''a'', CHR 0x00]] empty_world)) \<and>
   last (sent (server_run_command (always quiet_os) permit_all
      client_v2 [rule ''cmd'' ''ALL'' ''/bin/cmd'' 2 None (Some ''usage'')]
      [''help'', ''cmd'', [CHR ''a'', CHR 0x00]] empty_world)) = Send_error ERROR_BAD_COMMAND \<and>
   execs (server_run_command (always quiet_os) permit_all
      client_v2 [rule ''cmd'' ''ALL'' ''/bin/cmd'' 2 None (Some ''usage'')]
      [''help'', ''cmd'', [CHR ''a'', CHR 0x00]] empty_world) = []"
proof -
  let ?r = "rule ''cmd'' ''ALL'' ''/bin/cmd'' 2 None (Some ''usage'')"
  let ?argv = "[''help'', ''cmd'', [CHR ''a'', CHR 0x00]]"
  have n: "has_nul [CHR ''a'', CHR 0x00]" by (simp add: has_nul_def)
  have ne: "?argv \<noteq> []" by simp
  have head: "\<not> list_ex has_nul (take 2 ?argv)" by (simp add: has_nul_def numeral_2_eq_2)
  have m: "matched_rule [?r] ?argv = (True, Some ?r)"
    by (simp add: matched_rule_def xstrndup_def line_matches_def rule_def Let_def)
  have i: "1 \<le> (2::nat) \<and> 2 < length ?argv \<and> int 2 = stdin_arg ?r \<and> has_nul (?argv ! 2)"
    using n by (simp add: rule_def)
  have i': "\<exists>i. 1 \<le> i \<and> i < length ?argv \<and> has_nul (?argv ! i) \<and>
               \<not> (Suc i = length ?argv \<and> stdin_arg ?r = - 1)"
    using n by (intro exI[of _ 2]) (simp add: rule_def)
  from help_request_nul_guard [OF ne head m, of "always quiet_os" permit_all client_v2] i i' m n
  show ?thesis by blast
qed

section \<open>Properties of the summary sweep\<close>

lemma summary_loop_ok_any:
  "fst (snd (summary_loop os permit c rules (w, b, s, out))) =
     (b \<or> list_ex (qualifies permit c) rules)"
  by (induction rules arbitrary: w b s out)
     (simp_all add: Let_def split_beta qualifies_def)

lemma summary_loop_none_qualifies:
  "\<not> list_ex (qualifies permit c) rules \<Longrightarrow>
     summary_loop os permit c rules (w, b, s, out) = (w, b, s, out)"
  by (induction rules) (auto simp: qualifies_def)

text \<open>In the code the flag \<^verbatim>\<open>ok_any\<close> is set as soon as a rule qualifies (line 610),
  before \<^verbatim>\<open>server_exec\<close> is called for it and whatever that call returns; a sweep in
  which no rule qualifies replies ERROR_UNKNOWN_COMMAND and does nothing else.\<close>

lemma summary_loop_ok_any_qualifies:
  "fst (snd (summary_loop os permit c config (w, False, 0, out))) =
     list_ex (qualifies permit c) config"
  by (simp add: summary_loop_ok_any)

lemma server_send_summary_none_qualifies:
  "\<not> list_ex (qualifies permit c) config \<Longrightarrow>
     server_send_summary os permit c config w = server_send_error ERROR_UNKNOWN_COMMAND w"
  by (simp add: server_send_summary_def summary_loop_none_qualifies)

text \<open>
  Claim C2 at a sweep whose only invocation fails.  One rule qualifies and \<^verbatim>\<open>fork\<close> fails
  for it: the only call of \<^verbatim>\<open>server_exec\<close> sends ERROR_INTERNAL and returns false, so the
  disjunction of the successes is false and the claim has the server reply
  ERROR_UNKNOWN_COMMAND.  In the code \<^verbatim>\<open>ok_any\<close> is true all the same and the sweep ends
  with the status frame after the error.  The direct invocation of the same rule in the same
  environment sends its status frame only when \<^verbatim>\<open>server_exec\<close> succeeded (lines 906 to
  912), so it sends the error alone.
\<close>

theorem summary_sweep_failed_exec_sets_ok_any:
  "fst (snd (summary_loop (always (quiet_os\<lparr>fork_ok := False\<rparr>)) permit_all client_v2
     [rule ''cmd'' ''ALL'' ''/bin/cmd'' 0 (Some ''list'') None] (empty_world, False, 0, None))) = True \<and>
   map ex_ok (execs (fst (summary_loop (always (quiet_os\<lparr>fork_ok := False\<rparr>)) permit_all
     client_v2 [rule ''cmd'' ''ALL'' ''/bin/cmd'' 0 (Some ''list'') None]
     (empty_world, False, 0, None)))) = [False] \<and>
   sent (server_send_summary (always (quiet_os\<lparr>fork_ok := False\<rparr>)) permit_all client_v2
     [rule ''cmd'' ''ALL'' ''/bin/cmd'' 0 (Some ''list'') None] empty_world) =
     [Send_error ERROR_INTERNAL, V2_send_status 0] \<and>
   sent (server_run_command (always (quiet_os\<lparr>fork_ok := False\<rparr>)) permit_all client_v2
     [rule ''cmd'' ''ALL'' ''/bin/cmd'' 0 (Some ''list'') None] [''help''] empty_world) =
     [Send_error ERROR_INTERNAL, V2_send_status 0] \<and>
   sent (server_run_command (always (quiet_os\<lparr>fork_ok := False\<rparr>)) permit_all client_v2
     [rule ''cmd'' ''ALL'' ''/bin/cmd'' 0 (Some ''list'') None] [''cmd'', ''list''] empty_world) =
     [Send_error ERROR_INTERNAL]"
  by code_simp

section \<open>Terminal frames of an invocation\<close>

text \<open>With a transport that works, a call of \<^verbatim>\<open>server_exec\<close> sends no terminal frame
  when it succeeds and one ERROR_INTERNAL when it fails.  An invocation that is not a
  summary request therefore sends one terminal frame, and two when it is a help request
  with more than three tokens.\<close>

lemma terminals_append [simp]: "terminals (xs @ ys) = terminals xs + terminals ys"
  by (simp add: terminals_def)

lemma terminals_simps [simp]:
  "terminals [] = 0"
  "terminals [Send_error e] = 1"
  "terminals [V1_send_output b s] = 1"
  "terminals [V2_send_status s] = 1"
  "terminals [V2_send_output n x] = 0"
  by (simp_all add: terminals_def)

lemma run_callback_terminals:
  assumes "run_callback cb (w, p) = (w', p')" and "send_ok cb" and "\<not> got_break p"
  shows "\<exists>fs. sent w' = sent w @ fs \<and> terminals fs = (if got_break p' then 1 else 0)"
proof (cases cb)
  case (Buffered b bytes)
  with assms have "sent w' = sent w @ []" "\<not> got_break p'"
    by (auto simp: set_input_def split: option.splits if_splits)
  then show ?thesis by (intro exI[of _ "[]"]) simp
next
  case (Readcb b bytes ok)
  with assms(2) have ok by simp
  show ?thesis
  proof (cases "installed b p")
    case None
    with Readcb assms have "sent w' = sent w @ []" "\<not> got_break p'" by auto
    then show ?thesis by (intro exI[of _ "[]"]) simp
  next
    case (Some h)
    show ?thesis
    proof (cases h)
      case Handle_output
      with Some Readcb assms \<open>ok\<close>
      have "\<exists>n x. sent w' = sent w @ [V2_send_output n x]" "\<not> got_break p'"
        by (auto simp: handle_output_def Let_def set_input_def split: if_splits)
      then obtain n x where "sent w' = sent w @ [V2_send_output n x]" by blast
      with \<open>\<not> got_break p'\<close> show ?thesis
        by (intro exI[of _ "[V2_send_output n x]"]) simp
    next
      case Handle_output_full
      with Some Readcb assms have "sent w' = sent w @ []" "\<not> got_break p'"
        by (auto simp: handle_output_full_def Let_def set_input_def split: if_splits)
      then show ?thesis by (intro exI[of _ "[]"]) simp
    next
      case Handle_output_discard
      with Some Readcb assms have "sent w' = sent w @ []" "\<not> got_break p'"
        by (auto simp: handle_output_discard_def Let_def set_input_def split: if_splits)
      then show ?thesis by (intro exI[of _ "[]"]) simp
    qed
  qed
next
  case Writecb
  with assms have "sent w' = sent w @ []" "\<not> got_break p'" by auto
  then show ?thesis by (intro exI[of _ "[]"]) simp
next
  case (Eventcb b eof err errno)
  show ?thesis
  proof (cases "\<not> event_installed b p \<or> eof \<or>
      (err \<and> (errno = ECONNRESET \<or> errno = EPIPE))")
    case True
    with Eventcb assms have "sent w' = sent w @ []" "\<not> got_break p'"
      by (auto simp: handle_io_event_def split: if_splits)
    then show ?thesis by (intro exI[of _ "[]"]) simp
  next
    case False
    with Eventcb assms have "sent w' = sent w @ [Send_error ERROR_INTERNAL]" "got_break p'"
      by (auto simp: handle_io_event_def server_send_error_def split: if_splits)
    then show ?thesis by (intro exI[of _ "[Send_error ERROR_INTERNAL]"]) simp
  qed
next
  case (Sigchld r)
  with assms have "sent w' = sent w @ []" "\<not> got_break p'"
    by (auto simp: handle_child_exit_def split: option.splits)
  then show ?thesis by (intro exI[of _ "[]"]) simp
qed

lemma event_loop_terminals:
  assumes "event_loop cbs (w, p) = (w', p')" and "list_all send_ok cbs" and "\<not> got_break p"
  shows "\<exists>fs. sent w' = sent w @ fs \<and> terminals fs = (if got_break p' then 1 else 0)"
  using assms
proof (induction cbs arbitrary: w p)
  case Nil
  then show ?case by (intro exI[of _ "[]"]) simp
next
  case (Cons cb cbs)
  obtain w1 p1 where s: "run_callback cb (w, p) = (w1, p1)" by (cases "run_callback cb (w, p)")
  from Cons.prems have ok: "send_ok cb" "list_all send_ok cbs" by simp_all
  from run_callback_terminals [OF s ok(1) Cons.prems(3)] obtain fs1 where
    f1: "sent w1 = sent w @ fs1" "terminals fs1 = (if got_break p1 then 1 else 0)" by blast
  show ?case
  proof (cases "got_break p1")
    case True
    with Cons.prems s have "w' = w1" "p' = p1" by simp_all
    with f1 show ?thesis by blast
  next
    case False
    with Cons.prems s have "event_loop cbs (w1, p1) = (w', p')" by simp
    from Cons.IH [OF this ok(2) False] obtain fs2 where
      "sent w' = sent w1 @ fs2" "terminals fs2 = (if got_break p' then 1 else 0)" by blast
    with f1 False have "sent w' = sent w @ (fs1 @ fs2) \<and>
      terminals (fs1 @ fs2) = (if got_break p' then 1 else 0)" by simp
    then show ?thesis by blast
  qed
qed

lemma drain_terminals:
  assumes "drain passes (w, p) = (w', p')" and "list_all (list_all send_ok) passes"
    and "\<not> got_break p"
  shows "\<exists>fs. sent w' = sent w @ fs \<and> terminals fs = (if got_break p' then 1 else 0)"
  using assms
proof (induction passes arbitrary: w p)
  case Nil
  then have "sent w' = sent w @ []" "\<not> got_break p'" by auto
  then show ?case by (intro exI[of _ "[]"]) simp
next
  case (Cons pass rest)
  let ?w0 = "w\<lparr>nonblock_passes := Suc (nonblock_passes w)\<rparr>"
  let ?p0 = "p\<lparr>saw_output := False\<rparr>"
  obtain w1 p1 where s: "event_loop pass (?w0, ?p0) = (w1, p1)"
    by (cases "event_loop pass (?w0, ?p0)")
  from Cons.prems have ok: "list_all send_ok pass" "list_all (list_all send_ok) rest"
    and nb: "\<not> got_break ?p0" by simp_all
  from event_loop_terminals [OF s ok(1) nb] obtain fs1 where
    f1: "sent w1 = sent w @ fs1" "terminals fs1 = (if got_break p1 then 1 else 0)" by auto
  show ?case
  proof (cases "saw_output p1 \<and> \<not> got_break p1")
    case False
    with Cons.prems s have "w' = w1" "p' = p1" by auto
    with f1 show ?thesis by blast
  next
    case True
    with Cons.prems s have d: "drain rest (w1, p1) = (w', p')" by simp
    from True have "\<not> got_break p1" by simp
    from Cons.IH [OF d ok(2) this] obtain fs2 where
      "sent w' = sent w1 @ fs2" "terminals fs2 = (if got_break p' then 1 else 0)" by blast
    with f1 True have "sent w' = sent w @ (fs1 @ fs2) \<and>
      terminals (fs1 @ fs2) = (if got_break p' then 1 else 0)" by simp
    then show ?thesis by blast
  qed
qed

lemma server_process_output_terminals:
  assumes "server_process_output os c (w, p) = (ok, w', p')" and "transport_ok os"
  shows "\<exists>fs. sent w' = sent w @ fs \<and> terminals fs = (if ok then 0 else 1)"
proof -
  let ?p1 = "setup_bufferevents c p"
  obtain w1 p1 where s: "event_loop (dispatch_cbs os) (w, ?p1) = (w1, p1)"
    by (cases "event_loop (dispatch_cbs os) (w, ?p1)")
  from assms(2) have ok: "list_all send_ok (dispatch_cbs os)"
    "list_all (list_all send_ok) (nonblock_cbs os)" by (simp_all add: transport_ok_def)
  have nb: "\<not> got_break ?p1" by (simp add: setup_bufferevents_def Let_def)
  from event_loop_terminals [OF s ok(1) nb] obtain fs1 where
    f1: "sent w1 = sent w @ fs1" "terminals fs1 = (if got_break p1 then 1 else 0)" by blast
  show ?thesis
  proof (cases "got_break p1")
    case True
    with assms s have "w' = w1" "\<not> ok" by (simp_all add: server_process_output_def Let_def)
    with f1 True show ?thesis by auto
  next
    case False
    obtain w2 p2 where d: "drain (nonblock_cbs os) (w1, p1) = (w2, p2)"
      by (cases "drain (nonblock_cbs os) (w1, p1)")
    from drain_terminals [OF d ok(2) False] obtain fs2 where
      f2: "sent w2 = sent w1 @ fs2" "terminals fs2 = (if got_break p2 then 1 else 0)" by blast
    from False assms s d have "w' = w2" "ok = (\<not> got_break p2)"
      by (auto simp: server_process_output_def Let_def split: if_splits)
    with f1 f2 False have "sent w' = sent w @ (fs1 @ fs2) \<and>
      terminals (fs1 @ fs2) = (if ok then 0 else 1)" by simp
    then show ?thesis by blast
  qed
qed

lemma server_exec_terminals:
  assumes "server_exec os c cmd req_argv cline (w, p) = (ok, w', p')" and "transport_ok os"
  shows "\<exists>fs. sent w' = sent w @ fs \<and> terminals fs = (if ok then 0 else 1)"
proof (cases "\<not> socketpair_stdinout_ok os \<or> (protocol c > 1 \<and> \<not> socketpair_stderr_ok os) \<or>
    \<not> fork_ok os")
  case True
  with assms have "sent w' = sent w @ [Send_error ERROR_INTERNAL]" "\<not> ok"
    by (auto simp: server_exec_def Let_def server_send_error_def split: if_splits)
  then show ?thesis by (intro exI[of _ "[Send_error ERROR_INTERNAL]"]) simp
next
  case False
  obtain ok1 w1 p1 where s: "server_process_output os c (w, p) = (ok1, w1, p1)"
    by (cases "server_process_output os c (w, p)")
  from server_process_output_terminals [OF s assms(2)] obtain fs where
    f: "sent w1 = sent w @ fs" "terminals fs = (if ok1 then 0 else 1)" by blast
  from False assms s have "sent w' = sent w1" "ok = ok1"
    by (auto simp: server_exec_def Let_def split: wstatus.splits if_splits)
  with f show ?thesis by auto
qed

lemma run_matched_terminals:
  assumes "transport_ok (os (length (execs w)))"
  shows "terminals (sent (run_matched os permit c argv cmd sub helpsub h cline w)) =
           Suc (terminals (sent w))"
proof (cases "nul_check cline h argv 1")
  case True
  then show ?thesis by (simp add: run_matched_def server_send_error_def)
next
  case guard: False
  show ?thesis
  proof (cases cline)
    case None
    with guard show ?thesis by (simp add: run_matched_def server_send_error_def)
  next
    case (Some r)
    show ?thesis
    proof (cases "\<not> permit r (user c) \<or> (h \<and> help_cmd r = None)")
      case True
      with guard Some show ?thesis by (auto simp: run_matched_def server_send_error_def)
    next
      case False
      let ?sub = "if h then help_cmd r else sub"
      let ?ap = "if h then (create_argv_help (program r) (the ?sub) helpsub, empty_process)
                 else create_argv_command r empty_process argv"
      obtain ok w1 p1 where
        e: "server_exec (os (length (execs w))) c cmd (fst ?ap) r (w, snd ?ap) = (ok, w1, p1)"
        by (cases "server_exec (os (length (execs w))) c cmd (fst ?ap) r (w, snd ?ap)")
      from server_exec_terminals [OF e assms] obtain fs where
        f: "sent w1 = sent w @ fs" "terminals fs = (if ok then 0 else 1)" by blast
      have r: "run_matched os permit c argv cmd sub helpsub h cline w =
        (if ok then
           (if protocol c = 1
            then w1\<lparr>sent := sent w1 @ [V1_send_output (output_buf p1) (status p1)]\<rparr>
            else w1\<lparr>sent := sent w1 @ [V2_send_status (status p1)]\<rparr>)
         else w1)"
        using guard Some False e
        by (auto simp: run_matched_def Let_def split_beta)
      show ?thesis using r f by (cases ok) simp_all
    qed
  qed
qed

lemma server_run_command_terminals:
  assumes "transport_ok (os 0)"
    and "\<not> (length argv = 1 \<and> xstrndup (argv ! 0) = ''help'' \<and>
            find_config_line config (Some ''help'') None = None)"
  shows "terminals (sent (server_run_command os permit c config argv empty_world)) =
     (if 3 < length argv \<and> \<not> list_ex has_nul (take 2 argv) \<and> fst (matched_rule config argv)
      then 2 else 1)"
proof (cases "argv = [] \<or> list_ex has_nul (take 2 argv)")
  case True
  then show ?thesis
    by (auto simp: server_run_command_def server_send_error_def empty_world_def)
next
  case False
  then have ne: "argv \<noteq> []" and head: "\<not> list_ex has_nul (take 2 argv)" by simp_all
  let ?h = "fst (matched_rule config argv)"
  let ?w = "if ?h \<and> 3 < length argv
            then server_send_error ERROR_TOOMANY_ARGS empty_world else empty_world"
  have ex: "execs ?w = []" by (simp add: server_send_error_def empty_world_def)
  then have t: "transport_ok (os (length (execs ?w)))" using assms(1) by simp
  have tw: "terminals (sent ?w) = (if ?h \<and> 3 < length argv then 1 else 0)"
    by (simp add: server_send_error_def empty_world_def)
  show ?thesis
  proof (cases "1 < length argv")
    case True
    show ?thesis
      unfolding server_run_command_matched [OF ne head True]
      using run_matched_terminals [where os = os and w = ?w, OF t] tw head by simp
  next
    case False
    with ne have len: "length argv = 1" by (cases argv) auto
    with assms(2) have nosum: "\<not> (find_config_line config (Some (xstrndup (argv ! 0))) None = None \<and>
       xstrndup (argv ! 0) = ''help'')" by auto
    have ew: "transport_ok (os (length (execs empty_world)))"
      using assms(1) by (simp add: empty_world_def)
    have "server_run_command os permit c config argv empty_world =
      run_matched os permit c argv (xstrndup (argv ! 0)) None None False
        (find_config_line config (Some (xstrndup (argv ! 0))) None) empty_world"
      using ne head len nosum by (auto simp: server_run_command_def Let_def)
    then show ?thesis
      using run_matched_terminals [where os = os and w = empty_world, OF ew] len
      by (simp add: empty_world_def)
  qed
qed

text \<open>
  Claim C1 at a help request with four tokens.  No rule matches \<^verbatim>\<open>help cmd\<close>, so the
  dispatcher sends ERROR_TOOMANY_ARGS, and, since that branch does not leave the function,
  it goes on to look up \<^verbatim>\<open>cmd x\<close>, runs the help program of the rule with the argv
  \<^verbatim>\<open>cmd usage x\<close> and sends the status frame: two terminal frames in one invocation.  With
  an empty policy the second frame is ERROR_UNKNOWN_COMMAND.
\<close>

theorem help_too_many_arguments_two_terminal_frames:
  "sent (server_run_command (always quiet_os) permit_all client_v2
      [rule ''cmd'' ''ALL'' ''/bin/cmd'' 0 None (Some ''usage'')]
      [''help'', ''cmd'', ''x'', ''y''] empty_world) =
     [Send_error ERROR_TOOMANY_ARGS, V2_send_status 0] \<and>
   length (filter terminal (sent (server_run_command (always quiet_os) permit_all client_v2
      [rule ''cmd'' ''ALL'' ''/bin/cmd'' 0 None (Some ''usage'')]
      [''help'', ''cmd'', ''x'', ''y''] empty_world))) = 2 \<and>
   map ex_argv (execs (server_run_command (always quiet_os) permit_all client_v2
      [rule ''cmd'' ''ALL'' ''/bin/cmd'' 0 None (Some ''usage'')]
      [''help'', ''cmd'', ''x'', ''y''] empty_world)) =
     [[Some ''cmd'', Some ''usage'', Some ''x'', None]] \<and>
   sent (server_run_command (always quiet_os) permit_all client_v2 []
      [''help'', ''cmd'', ''x'', ''y''] empty_world) =
     [Send_error ERROR_TOOMANY_ARGS, Send_error ERROR_UNKNOWN_COMMAND]"
  by code_simp

end
